(* ===== verification/Prelude.thy ===== *)
theory Prelude
  imports Main "HOL-Library.Word"
begin

unbundle bit_operations_syntax

text \<open>
  What the components share: the names of the C integer types, the faults an execution can end
  in, blocks of memory as byte lists with bounds-checked accesses, C strings, and the encodings
  of 32-bit integers. The target is the one the build files use: x86-64 Linux, LP64, signed
  \<open>char\<close>, little endian.
\<close>

section \<open>Integer types\<close>

type_synonym byte = "8 word"
type_synonym u8 = "8 word"
type_synonym u16 = "16 word"
type_synonym u32 = "32 word"
type_synonym u64 = "64 word"

text \<open>A C \<open>char\<close> constant, and the bytes of a string literal (without its terminator).\<close>

definition ch :: "char \<Rightarrow> byte" where
  "ch c = of_char c"

definition str :: "string \<Rightarrow> byte list" where
  "str s = map ch s"

lemma str_simps [simp]:
  "str [] = []" "str (c # s) = ch c # str s" "length (str s) = length s"
  by (simp_all add: str_def)

section \<open>Faults\<close>

text \<open>
  Undefined behaviour and deliberate crashes end an execution; each is a value, so every
  theorem that concludes with \<open>Inr\<close> says that none of them happens.
\<close>

datatype fault =
  NullDeref          \<comment> \<open>an access through, or a call of, a null pointer\<close>
| OutOfBounds        \<comment> \<open>an access outside the object pointed into\<close>
| DivByZero
| BadConversion      \<comment> \<open>a floating value outside the integer type it is converted to\<close>
| BadTag             \<comment> \<open>a union read through a member that was not the one stored\<close>
| SignedOverflow     \<comment> \<open>arithmetic on a signed type outside its range\<close>
| CrashCall          \<comment> \<open>the \<open>CRASH()\<close> macro\<close>
| Diverge            \<comment> \<open>a bounded unrolling of a loop ran out\<close>

type_synonym 'a res = "fault + 'a"

definition rbind :: "'a res \<Rightarrow> ('a \<Rightarrow> 'b res) \<Rightarrow> 'b res" where
  "rbind m f = (case m of Inl e \<Rightarrow> Inl e | Inr a \<Rightarrow> f a)"

definition opt_res :: "fault \<Rightarrow> 'a option \<Rightarrow> 'a res" where
  "opt_res e x = (case x of None \<Rightarrow> Inl e | Some a \<Rightarrow> Inr a)"

lemma rbind_simps [simp]:
  "rbind (Inl e) f = Inl e" "rbind (Inr a) f = f a"
  by (simp_all add: rbind_def)

lemma rbind_eq_Inr: "rbind m f = Inr b \<longleftrightarrow> (\<exists>a. m = Inr a \<and> f a = Inr b)"
  by (cases m) auto

lemma opt_res_simps [simp]:
  "opt_res e None = Inl e" "opt_res e (Some a) = Inr a"
  "opt_res e x = Inr a \<longleftrightarrow> x = Some a"
  "opt_res e x = Inl e' \<longleftrightarrow> x = None \<and> e' = e"
  by (auto simp: opt_res_def split: option.splits)

section \<open>Memory blocks\<close>

text \<open>
  An object of \<open>n\<close> bytes is a list of length \<open>n\<close>. Reads and writes check their bounds
  (\<open>None\<close> is an access outside the object). The null pointer is the empty block.
\<close>

definition mem_read :: "nat \<Rightarrow> nat \<Rightarrow> byte list \<Rightarrow> byte list option" where
  "mem_read off n m = (if off + n \<le> length m then Some (take n (drop off m)) else None)"

definition mem_write :: "nat \<Rightarrow> byte list \<Rightarrow> byte list \<Rightarrow> byte list option" where
  "mem_write off src m =
     (if off + length src \<le> length m
      then Some (take off m @ src @ drop (off + length src) m) else None)"

definition mem_move :: "nat \<Rightarrow> nat \<Rightarrow> nat \<Rightarrow> byte list \<Rightarrow> byte list option" where
  "mem_move dst src n m =
     (case mem_read src n m of None \<Rightarrow> None | Some bs \<Rightarrow> mem_write dst bs m)"

lemma take_eq_split: "take n xs = ys \<Longrightarrow> xs = ys @ drop n xs"
  by auto

lemma take_length_take: "take (length (take n xs)) xs = take n xs"
  by (cases "n \<le> length xs") auto

lemma mem_read_Some: "off + n \<le> length m \<Longrightarrow> mem_read off n m = Some (take n (drop off m))"
  by (simp add: mem_read_def)

lemma mem_write_Some:
  "off + length src \<le> length m \<Longrightarrow>
   mem_write off src m = Some (take off m @ src @ drop (off + length src) m)"
  by (simp add: mem_write_def)

lemma mem_write_length: "mem_write off src m = Some m' \<Longrightarrow> length m' = length m"
  by (auto simp: mem_write_def split: if_splits)

lemma mem_move_down:
  assumes "src + n = length m"
  shows "mem_move 0 src n m = Some (drop src m @ drop n m)"
proof -
  have "n = length m - src" "src \<le> length m" using assms by auto
  then show ?thesis by (simp add: mem_move_def mem_read_def mem_write_def)
qed

text \<open>Memory from the allocator: \<open>alc n\<close> is \<open>None\<close> when a request for \<open>n\<close> bytes fails,
  otherwise it gives the indeterminate byte at every offset of the new block.\<close>

type_synonym allocator = "nat \<Rightarrow> (nat \<Rightarrow> byte) option"

definition malloc :: "allocator \<Rightarrow> nat \<Rightarrow> byte list option" where
  "malloc alc n = map_option (\<lambda>junk. map junk [0..<n]) (alc n)"

definition realloc :: "allocator \<Rightarrow> byte list \<Rightarrow> nat \<Rightarrow> byte list option" where
  "realloc alc old n =
     map_option (\<lambda>junk. take n old @ map junk [length old..<n]) (alc n)"

lemma malloc_length: "malloc alc n = Some m \<Longrightarrow> length m = n"
  by (auto simp: malloc_def)

lemma realloc_grow:
  assumes "realloc alc old n = Some m" and "length old \<le> n"
  shows "length m = n" and "take (length old) m = old"
  using assms by (auto simp: realloc_def)

section \<open>C strings\<close>

text \<open>The string a pointer into a block denotes: the bytes before the first NUL.\<close>

definition cstr :: "byte list \<Rightarrow> byte list" where
  "cstr m = takeWhile (\<lambda>b. b \<noteq> 0) m"

definition nul_free :: "byte list \<Rightarrow> bool" where
  "nul_free s \<longleftrightarrow> 0 \<notin> set s"

definition strlen :: "byte list \<Rightarrow> nat option" where
  "strlen m = (if 0 \<in> set m then Some (length (cstr m)) else None)"

fun strchr :: "byte \<Rightarrow> byte list \<Rightarrow> nat option res" where
  "strchr c [] = Inl OutOfBounds"
| "strchr c (b # m) =
     (if b = c then Inr (Some 0)
      else if b = 0 then Inr None
      else rbind (strchr c m) (\<lambda>r. Inr (map_option Suc r)))"

lemma nul_free_simps [simp]:
  "nul_free []" "nul_free (b # s) \<longleftrightarrow> b \<noteq> 0 \<and> nul_free s"
  "nul_free (s @ t) \<longleftrightarrow> nul_free s \<and> nul_free t"
  by (auto simp: nul_free_def)

lemma nul_free_cstr [simp]: "nul_free (cstr m)"
  by (induction m) (auto simp: nul_free_def cstr_def)

lemma cstr_terminated [simp]: "nul_free s \<Longrightarrow> cstr (s @ 0 # m) = s"
  by (induction s) (auto simp: cstr_def nul_free_def)

lemma cstr_nul_free [simp]: "nul_free s \<Longrightarrow> cstr s = s"
  by (induction s) (auto simp: cstr_def nul_free_def)

lemma strlen_terminated [simp]: "nul_free s \<Longrightarrow> strlen (s @ 0 # m) = Some (length s)"
  by (simp add: strlen_def)

lemma cstr_split: "0 \<in> set m \<Longrightarrow> \<exists>r. m = cstr m @ 0 # r"
proof (induction m)
  case (Cons b m)
  then show ?case by (cases "b = 0") (auto simp: cstr_def)
qed simp

text \<open>Searching a terminated string finds the first occurrence before the terminator.\<close>

lemma strchr_hit: "c \<notin> set a \<Longrightarrow> nul_free a \<Longrightarrow> strchr c (a @ c # m) = Inr (Some (length a))"
  by (induction a) auto

lemma strchr_miss:
  "c \<noteq> 0 \<Longrightarrow> c \<notin> set s \<Longrightarrow> nul_free s \<Longrightarrow> strchr c (s @ 0 # m) = Inr None"
  by (induction s) auto

text \<open>\<open>strncpy\<close> of a string into an array: cut at \<open>n\<close>, filled with zeros.\<close>

definition strncpy :: "byte list \<Rightarrow> nat \<Rightarrow> byte list" where
  "strncpy s n = take n s @ replicate (n - length s) 0"

text \<open>Comparison of C strings given by their contents (the end of a list is the terminator).\<close>

fun strcmp_eq :: "byte list \<Rightarrow> byte list \<Rightarrow> bool" where
  "strcmp_eq [] [] = True"
| "strcmp_eq (a # s) (b # t) = (a = b \<and> strcmp_eq s t)"
| "strcmp_eq _ _ = False"

fun strncmp_eq :: "nat \<Rightarrow> byte list \<Rightarrow> byte list \<Rightarrow> bool" where
  "strncmp_eq 0 s t = True"
| "strncmp_eq (Suc n) [] [] = True"
| "strncmp_eq (Suc n) (a # s) (b # t) = (a = b \<and> strncmp_eq n s t)"
| "strncmp_eq (Suc n) _ _ = False"

lemma strcmp_eq_iff [simp]: "strcmp_eq s t \<longleftrightarrow> s = t"
  by (induction s t rule: strcmp_eq.induct) auto

lemma strncmp_eq_iff: "strncmp_eq n s t \<longleftrightarrow> take n s = take n t"
  by (induction n s t rule: strncmp_eq.induct) auto

text \<open>\<open>strstr\<close>: is the needle somewhere in the string?\<close>

fun starts_with :: "byte list \<Rightarrow> byte list \<Rightarrow> bool" where
  "starts_with [] s = True"
| "starts_with (p # ps) [] = False"
| "starts_with (p # ps) (b # s) = (p = b \<and> starts_with ps s)"

fun strstr :: "byte list \<Rightarrow> byte list \<Rightarrow> bool" where
  "strstr [] p = starts_with p []"
| "strstr (b # s) p = (starts_with p (b # s) \<or> strstr s p)"

lemma starts_with_iff: "starts_with p s \<longleftrightarrow> (\<exists>r. s = p @ r)"
  by (induction p s rule: starts_with.induct) auto

lemma strstr_iff: "strstr s p \<longleftrightarrow> (\<exists>a b. s = a @ p @ b)"
proof (induction s)
  case Nil
  show ?case by (cases p) auto
next
  case (Cons x s)
  show ?case
    by (simp add: starts_with_iff Cons) (metis append_Cons append_Nil list.exhaust list.inject)
qed

section \<open>Streams of terminated messages\<close>

text \<open>
  Lines (terminated by a newline) and recorded commands (terminated by a NUL) are both messages
  with a terminator. \<open>encode c ms\<close> is the byte stream of the messages \<open>ms\<close>;
  \<open>finished c bs\<close> are the messages a stream holds in full and \<open>pending c bs\<close> is what
  follows the last terminator.
\<close>

definition encode :: "byte \<Rightarrow> byte list list \<Rightarrow> byte list" where
  "encode c ms = concat (map (\<lambda>m. m @ [c]) ms)"

fun finished :: "byte \<Rightarrow> byte list \<Rightarrow> byte list list" where
  "finished c [] = []"
| "finished c (b # bs) =
     (if b = c then [] # finished c bs
      else (case finished c bs of [] \<Rightarrow> [] | m # ms \<Rightarrow> (b # m) # ms))"

fun pending :: "byte \<Rightarrow> byte list \<Rightarrow> byte list" where
  "pending c [] = []"
| "pending c (b # bs) =
     (if b = c then pending c bs
      else if c \<in> set bs then pending c bs else b # bs)"

lemma encode_simps [simp]:
  "encode c [] = []" "encode c (m # ms) = m @ c # encode c ms"
  "encode c (ms @ ns) = encode c ms @ encode c ns"
  by (simp_all add: encode_def)

lemma complete_none [simp]: "finished c bs = [] \<longleftrightarrow> c \<notin> set bs"
  by (induction bs) (auto split: list.splits)

lemma complete_empty [simp]: "c \<notin> set bs \<Longrightarrow> finished c bs = []"
  by simp

lemma pending_none [simp]: "c \<notin> set bs \<Longrightarrow> pending c bs = bs"
  by (induction bs) auto

lemma complete_Cons [simp]: "c \<notin> set m \<Longrightarrow> finished c (m @ c # bs) = m # finished c bs"
  by (induction m) auto

lemma pending_Cons [simp]: "c \<notin> set m \<Longrightarrow> pending c (m @ c # bs) = pending c bs"
  by (induction m) auto

lemma stream_split: "bs = encode c (finished c bs) @ pending c bs"
  by (induction bs) (auto split: list.splits)

lemma pending_free [simp]: "c \<notin> set (pending c bs)"
  by (induction bs) auto

lemma complete_free: "m \<in> set (finished c bs) \<Longrightarrow> c \<notin> set m"
  by (induction bs arbitrary: m) (auto split: list.splits if_splits)

lemma complete_encode [simp]:
  "\<forall>m \<in> set ms. c \<notin> set m \<Longrightarrow> finished c (encode c ms @ bs) = ms @ finished c bs"
  by (induction ms) auto

lemma pending_encode [simp]:
  "\<forall>m \<in> set ms. c \<notin> set m \<Longrightarrow> pending c (encode c ms @ bs) = pending c bs"
  by (induction ms) auto

text \<open>A stream can be split anywhere: what is pending is completed by what follows.\<close>

lemma complete_append: "finished c (a @ b) = finished c a @ finished c (pending c a @ b)"
proof -
  have "finished c (a @ b) = finished c (encode c (finished c a) @ (pending c a @ b))"
    by (metis append_assoc stream_split)
  then show ?thesis by (simp add: complete_free)
qed

lemma pending_append: "pending c (a @ b) = pending c (pending c a @ b)"
proof -
  have "pending c (a @ b) = pending c (encode c (finished c a) @ (pending c a @ b))"
    by (metis append_assoc stream_split)
  then show ?thesis by (simp add: complete_free)
qed

lemma first_message:
  assumes "c \<in> set bs"
  obtains m r where "bs = m @ c # r" and "c \<notin> set m"
    and "finished c bs = m # finished c r" and "pending c bs = pending c r"
proof -
  from split_list_first [OF assms] obtain m r where "bs = m @ c # r" "c \<notin> set m" by blast
  with that show thesis by simp
qed

lemma length_encode_le: "m \<in> set ms \<Longrightarrow> length m < length (encode c ms)"
  by (induction ms) auto

lemma length_encode_ge: "length ms \<le> length (encode c ms)"
  by (induction ms) auto

lemma length_complete_le: "length (finished c bs) \<le> length bs"
  using arg_cong [OF stream_split [of bs c], of length] length_encode_ge [of "finished c bs" c]
  by simp

lemma length_pending_le: "length (pending c bs) \<le> length bs"
  by (induction bs) auto

section \<open>Little-endian 32-bit integers\<close>

definition le32 :: "u32 \<Rightarrow> byte list" where
  "le32 w = [ucast w, ucast (drop_bit 8 w), ucast (drop_bit 16 w), ucast (drop_bit 24 w)]"

fun rd32 :: "byte list \<Rightarrow> u32" where
  "rd32 (a # b # c # d # _) =
     ucast a OR push_bit 8 (ucast b) OR push_bit 16 (ucast c) OR push_bit 24 (ucast d)"
| "rd32 _ = 0"

lemma length_le32 [simp]: "length (le32 w) = 4"
  by (simp add: le32_def)

lemma rd32_le32 [simp]: "rd32 (le32 w @ r) = w"
proof (rule bit_word_eqI)
  fix n
  assume "n < LENGTH(32)"
  then have "n < 8 \<or> 8 \<le> n \<and> n < 16 \<or> 16 \<le> n \<and> n < 24 \<or> 24 \<le> n \<and> n < 32" by auto
  then show "bit (rd32 (le32 w @ r)) n = bit w n"
    by (auto simp: le32_def bit_simps)
qed

section \<open>Unsigned arithmetic\<close>

lemma unat_add_small:
  fixes a b :: "'a::len word"
  assumes "unat a + unat b < 2 ^ LENGTH('a)"
  shows "unat (a + b) = unat a + unat b"
  using assms by (simp add: unat_word_ariths)

lemma u32_lt: "unat (w :: u32) < 4294967296"
  using unsigned_less [of w, where ?'a = nat] by simp

lemma u64_lt: "unat (w :: u64) < 18446744073709551616"
  using unsigned_less [of w, where ?'a = nat] by simp

lemma unat_ucast_up32 [simp]: "unat (ucast (w :: u32) :: u64) = unat w"
  using u32_lt [of w] by (simp add: unsigned_ucast_eq take_bit_nat_eq_self)

lemma unat_ucast_down32: "unat w < 2 ^ 32 \<Longrightarrow> unat (ucast (w :: u64) :: u32) = unat w"
  by (simp add: unsigned_ucast_eq unsigned_take_bit_eq take_bit_nat_eq_self)

lemma unat_of_nat64: "n < 2 ^ 64 \<Longrightarrow> unat (of_nat n :: u64) = n"
  by (simp add: unat_of_nat)

lemma unat_of_nat32: "n < 2 ^ 32 \<Longrightarrow> unat (of_nat n :: u32) = n"
  by (simp add: unat_of_nat)

lemma sint_u32_small:
  assumes "unat (w :: u32) < 2 ^ 31"
  shows "sint w = uint w"
proof -
  have "int (unat w) < int (2 ^ 31)" using assms by (simp only: of_nat_less_iff)
  then have "uint w < 2 ^ 31" by simp
  then have "signed_take_bit 31 (uint w) = uint w"
    by (intro signed_take_bit_int_eq_self) (auto intro: order_trans [OF _ uint_ge_0])
  then show ?thesis by (simp add: sint_uint)
qed

lemma scast_u32_small:
  assumes "unat (w :: u32) < 2 ^ 31"
  shows "(scast w :: u64) = ucast w"
  unfolding scast_eq ucast_eq sint_u32_small [OF assms] ..

lemma ucast_of_nat32: "(ucast (of_nat n :: u64) :: u32) = of_nat n"
proof -
  have "is_down (ucast :: u64 \<Rightarrow> u32)" by (simp add: is_down)
  then have "(ucast (word_of_int (int n) :: u64) :: u32) = word_of_int (int n)"
    by (rule ucast_down_wi)
  then show ?thesis by simp
qed

end
