(* ===== verification/Functor.thy ===== *)
theory Functor
  imports Prelude
begin

text \<open>
  \<^verbatim>\<open>functor.c\<close>: a function pointer with the parameters it will be called with. A pointer names
  the object pointed to: a variable, a variable's value, a parameter of a loaded function, or the
  place of a function's result.
\<close>

section \<open>Values\<close>

datatype pointer =
  PVar nat
| PValue nat
| PParam nat nat
| PResult nat

text \<open>The union \<open>Param_t\<close>: 64 bits, read as an integer or as a \<open>double\<close>, or an address.\<close>

datatype param = Bits u64 | Addr pointer

definition PARAM_COUNT :: nat where
  "PARAM_COUNT = 3"

text \<open>Bits as an integer or a double; the bits of an address are not modelled, reading them is a
  fault.\<close>

definition param_bits :: "param \<Rightarrow> u64 res" where
  "param_bits p = (case p of Bits w \<Rightarrow> Inr w | Addr _ \<Rightarrow> Inl BadTag)"

definition param_addr :: "param \<Rightarrow> pointer res" where
  "param_addr p = (case p of Bits w \<Rightarrow> Inl (if w = 0 then NullDeref else BadTag) | Addr a \<Rightarrow> Inr a)"

lemma param_simps [simp]:
  "param_bits (Bits w) = Inr w" "param_bits (Addr a) = Inl BadTag"
  "param_addr (Addr a) = Inr a" "param_addr (Bits w) = Inl (if w = 0 then NullDeref else BadTag)"
  by (simp_all add: param_bits_def param_addr_def)

section \<open>Functors\<close>

text \<open>The functions the program points to: its own two, and those of the loaded object, by their
  addresses.\<close>

datatype func = Noop | Copy | Loaded u64

record functor_t =
  call :: "func option"
  params :: "param list"

definition functor_zero :: functor_t where
  "functor_zero = \<lparr>call = None, params = replicate PARAM_COUNT (Bits 0)\<rparr>"

definition functor_init :: "func option \<Rightarrow> functor_t" where
  "functor_init fp = functor_zero\<lparr>call := fp\<rparr>"

text \<open>\<open>exec f ps s\<close> is the call of \<open>f\<close> in a state.\<close>

definition functor_invoke ::
  "(func \<Rightarrow> param list \<Rightarrow> 's \<Rightarrow> (u64 \<times> 's) res) \<Rightarrow> functor_t \<Rightarrow> 's \<Rightarrow> (u64 \<times> 's) res"
where
  "functor_invoke exec fnctor s =
     (case call fnctor of
        None \<Rightarrow> Inl NullDeref
      | Some f \<Rightarrow> exec f (params fnctor) s)"

end
