(* ===== verification/Ieee.thy ===== *)
theory Ieee
  imports Prelude
begin

text \<open>
  The C types \<open>double\<close> and \<open>float\<close> as the machine has them: IEEE 754 numbers given by their bits,
  with the operations correctly rounded to nearest, ties to even. A format is given by the number
  \<open>t\<close> of stored significand bits and the number \<open>w\<close> of exponent bits.
\<close>

section \<open>Formats\<close>

text \<open>\<open>Fin s m e\<close> is \<open>m * 2 ^ e\<close>, negated when \<open>s\<close>.\<close>

datatype fp = NaN | Inf bool | Fin bool nat int

definition emin :: "nat \<Rightarrow> nat \<Rightarrow> int" where
  "emin t w = 2 - 2 ^ (w - 1) - int t"

definition fp_decode :: "nat \<Rightarrow> nat \<Rightarrow> nat \<Rightarrow> fp" where
  "fp_decode t w code =
     (let s = odd (code div 2 ^ (t + w)); e = code div 2 ^ t mod 2 ^ w; m = code mod 2 ^ t
      in if e = 2 ^ w - 1 then (if m = 0 then Inf s else NaN)
         else if e = 0 then Fin s m (emin t w)
         else Fin s (m + 2 ^ t) (emin t w + int e - 1))"

fun ilog2 :: "nat \<Rightarrow> nat" where
  "ilog2 n = (if n < 2 then 0 else Suc (ilog2 (n div 2)))"

declare ilog2.simps [simp del]

text \<open>The exponent of the leading bit of \<open>num / den\<close>.\<close>

definition lead :: "nat \<Rightarrow> nat \<Rightarrow> int" where
  "lead num den =
     (let l = int (ilog2 num) - int (ilog2 den)
      in if num * 2 ^ nat (- l) \<ge> den * 2 ^ nat l then l else l - 1)"

text \<open>Division rounded to nearest, ties to even.\<close>

definition div_nearest :: "nat \<Rightarrow> nat \<Rightarrow> nat" where
  "div_nearest a b =
     (let k = a div b; r = a mod b
      in if 2 * r > b \<or> (2 * r = b \<and> odd k) then Suc k else k)"

text \<open>
  The bits, without the sign, of \<open>num / den\<close> rounded. The significand is added to the scaled
  exponent, so that one that rounds up to the next power of two carries into the exponent; what is
  too large becomes infinite.
\<close>

definition fp_code :: "nat \<Rightarrow> nat \<Rightarrow> nat \<Rightarrow> nat \<Rightarrow> nat" where
  "fp_code t w num den =
     (if num = 0 then 0
      else
        let q = max (lead num den - int t) (emin t w);
            k = div_nearest (num * 2 ^ nat (- q)) (den * 2 ^ nat q)
        in min (nat (q - emin t w) * 2 ^ t + k) ((2 ^ w - 1) * 2 ^ t))"

definition fp_bits :: "nat \<Rightarrow> nat \<Rightarrow> bool \<Rightarrow> nat \<Rightarrow> nat \<Rightarrow> nat" where
  "fp_bits t w s num den = (if s then 2 ^ (t + w) else 0) + fp_code t w num den"

text \<open>\<open>m * 2 ^ e\<close>, as a fraction.\<close>

definition fp_scaled :: "nat \<Rightarrow> nat \<Rightarrow> bool \<Rightarrow> nat \<Rightarrow> int \<Rightarrow> nat" where
  "fp_scaled t w s m e = fp_bits t w s (m * 2 ^ nat e) (2 ^ nat (- e))"

section \<open>Doubles\<close>

type_synonym double = u64

definition dval :: "double \<Rightarrow> fp" where
  "dval x = fp_decode 52 11 (unat x)"

definition d_nan :: double where
  "d_nan = 0xFFF8000000000000"

definition d_zero :: "bool \<Rightarrow> double" where
  "d_zero s = (if s then 0x8000000000000000 else 0)"

definition d_inf :: "bool \<Rightarrow> double" where
  "d_inf s = (if s then 0xFFF0000000000000 else 0x7FF0000000000000)"

definition d_scaled :: "bool \<Rightarrow> nat \<Rightarrow> int \<Rightarrow> double" where
  "d_scaled s m e = of_nat (fp_scaled 52 11 s m e)"

text \<open>An operand that is no number is the result, made quiet; the first one, if both are.\<close>

definition quiet :: "double \<Rightarrow> double" where
  "quiet x = or x 0x8000000000000"

definition d_nans :: "double \<Rightarrow> double \<Rightarrow> double" where
  "d_nans x y = (if dval x = NaN then quiet x else quiet y)"

definition signed_mant :: "bool \<Rightarrow> nat \<Rightarrow> int" where
  "signed_mant s m = (if s then - int m else int m)"

definition d_add :: "double \<Rightarrow> double \<Rightarrow> double" where
  "d_add x y =
     (case (dval x, dval y) of
        (Fin s m e, Fin s' m' e') \<Rightarrow>
          let e0 = min e e';
              z = signed_mant s m * 2 ^ nat (e - e0) + signed_mant s' m' * 2 ^ nat (e' - e0)
          in if z = 0 then d_zero (s \<and> s') else d_scaled (z < 0) (nat \<bar>z\<bar>) e0
      | (Inf s, Inf s') \<Rightarrow> if s = s' then x else d_nan
      | (Inf _, Fin _ _ _) \<Rightarrow> x
      | (Fin _ _ _, Inf _) \<Rightarrow> y
      | _ \<Rightarrow> d_nans x y)"

definition d_neg :: "double \<Rightarrow> double" where
  "d_neg x = xor x 0x8000000000000000"

definition d_sub :: "double \<Rightarrow> double \<Rightarrow> double" where
  "d_sub x y = (if dval x = NaN \<or> dval y = NaN then d_nans x y else d_add x (d_neg y))"

definition d_mul :: "double \<Rightarrow> double \<Rightarrow> double" where
  "d_mul x y =
     (case (dval x, dval y) of
        (Fin s m e, Fin s' m' e') \<Rightarrow> d_scaled (s \<noteq> s') (m * m') (e + e')
      | (Inf s, Inf s') \<Rightarrow> d_inf (s \<noteq> s')
      | (Inf s, Fin s' m _) \<Rightarrow> if m = 0 then d_nan else d_inf (s \<noteq> s')
      | (Fin s m _, Inf s') \<Rightarrow> if m = 0 then d_nan else d_inf (s \<noteq> s')
      | _ \<Rightarrow> d_nans x y)"

definition d_div :: "double \<Rightarrow> double \<Rightarrow> double" where
  "d_div x y =
     (case (dval x, dval y) of
        (Fin s m e, Fin s' m' e') \<Rightarrow>
          if m' = 0 then (if m = 0 then d_nan else d_inf (s \<noteq> s'))
          else of_nat (fp_bits 52 11 (s \<noteq> s') (m * 2 ^ nat (e - e')) (m' * 2 ^ nat (e' - e)))
      | (Inf _, Inf _) \<Rightarrow> d_nan
      | (Inf s, Fin s' _ _) \<Rightarrow> d_inf (s \<noteq> s')
      | (Fin s _ _, Inf s') \<Rightarrow> d_zero (s \<noteq> s')
      | _ \<Rightarrow> d_nans x y)"

text \<open>Comparisons; they are false when an operand is no number.\<close>

definition d_less :: "double \<Rightarrow> double \<Rightarrow> bool" where
  "d_less x y =
     (case (dval x, dval y) of
        (Fin s m e, Fin s' m' e') \<Rightarrow>
          let e0 = min e e'
          in signed_mant s m * 2 ^ nat (e - e0) < signed_mant s' m' * 2 ^ nat (e' - e0)
      | (Inf s, Inf s') \<Rightarrow> s \<and> \<not> s'
      | (Inf s, Fin _ _ _) \<Rightarrow> s
      | (Fin _ _ _, Inf s') \<Rightarrow> \<not> s'
      | _ \<Rightarrow> False)"

text \<open>The integer square root, and the rounded one: 64 more bits than the result has, and one that
  stands for the rest.\<close>

fun isqrt :: "nat \<Rightarrow> nat" where
  "isqrt n =
     (if n = 0 then 0
      else let r = 2 * isqrt (n div 4) in if (r + 1) * (r + 1) \<le> n then r + 1 else r)"

declare isqrt.simps [simp del]

definition d_sqrt :: "double \<Rightarrow> double" where
  "d_sqrt x =
     (case dval x of
        NaN \<Rightarrow> quiet x
      | Inf s \<Rightarrow> if s then d_nan else x
      | Fin s m e \<Rightarrow>
          if m = 0 then x
          else if s then d_nan
          else
            let m2 = (if even e then m else 2 * m) * 2 ^ 128;
                e2 = (e - (if even e then 0 else 1)) div 2 - 64;
                r = isqrt m2
            in d_scaled False (2 * r + (if r * r = m2 then 0 else 1)) (e2 - 1))"

section \<open>Conversions\<close>

definition d_of_int :: "int \<Rightarrow> double" where
  "d_of_int i = d_scaled (i < 0) (nat \<bar>i\<bar>) 0"

definition truncate_mag :: "nat \<Rightarrow> int \<Rightarrow> nat" where
  "truncate_mag m e = m * 2 ^ nat e div 2 ^ nat (- e)"

text \<open>A conversion to \<open>uint64_t\<close>: defined when the truncated value fits.\<close>

definition d_to_u64 :: "double \<Rightarrow> u64 res" where
  "d_to_u64 x =
     (case dval x of
        Fin s m e \<Rightarrow>
          let n = truncate_mag m e
          in if n < 2 ^ 64 \<and> (s \<longrightarrow> n = 0) then Inr (of_nat n) else Inl BadConversion
      | _ \<Rightarrow> Inl BadConversion)"

section \<open>Floats\<close>

type_synonym float = u32

definition fval :: "float \<Rightarrow> fp" where
  "fval x = fp_decode 23 8 (unat x)"

definition f_of_int :: "int \<Rightarrow> float" where
  "f_of_int i = of_nat (fp_scaled 23 8 (i < 0) (nat \<bar>i\<bar>) 0)"

definition f_to_u64 :: "float \<Rightarrow> u64 res" where
  "f_to_u64 x =
     (case fval x of
        Fin s m e \<Rightarrow>
          let n = truncate_mag m e
          in if n < 2 ^ 64 \<and> (s \<longrightarrow> n = 0) then Inr (of_nat n) else Inl BadConversion
      | _ \<Rightarrow> Inl BadConversion)"

text \<open>The product of two finite floats; no other product occurs in the program.\<close>

definition f_mul :: "float \<Rightarrow> float \<Rightarrow> float res" where
  "f_mul x y =
     (case (fval x, fval y) of
        (Fin s m e, Fin s' m' e') \<Rightarrow> Inr (of_nat (fp_scaled 23 8 (s \<noteq> s') (m * m') (e + e')))
      | _ \<Rightarrow> Inl BadConversion)"

section \<open>Lemmas\<close>

text \<open>For evaluation on literals.\<close>

lemma ilog2_numeral:
  "ilog2 1 = 0" "ilog2 (Suc 0) = 0"
  "ilog2 (numeral k) =
     (if (numeral k :: nat) < 2 then 0 else Suc (ilog2 (numeral k div 2)))"
  by (simp_all add: ilog2.simps)

lemmas fp_eval = fp_decode_def emin_def signed_mant_def Let_def d_scaled_def fp_scaled_def
  fp_bits_def fp_code_def lead_def ilog2_numeral div_nearest_def truncate_mag_def dval_def fval_def

lemma ilog2_bounds: "0 < n \<Longrightarrow> 2 ^ ilog2 n \<le> n \<and> n < 2 * 2 ^ ilog2 n"
proof (induction n rule: ilog2.induct)
  case (1 n)
  show ?case
  proof (cases "n < 2")
    case True
    then show ?thesis using 1(2) by (simp add: ilog2.simps)
  next
    case False
    then have "2 ^ ilog2 (n div 2) \<le> n div 2" "n div 2 < 2 * 2 ^ ilog2 (n div 2)"
      using 1 by simp_all
    then have "2 * 2 ^ ilog2 (n div 2) \<le> n" "n < 2 * (2 * 2 ^ ilog2 (n div 2))"
      by linarith+
    then show ?thesis using False by (simp add: ilog2.simps [of n])
  qed
qed

lemma isqrt_bounds: "isqrt n * isqrt n \<le> n \<and> n < (isqrt n + 1) * (isqrt n + 1)"
proof (induction n rule: isqrt.induct)
  case (1 n)
  show ?case
  proof (cases "n = 0")
    case True
    then show ?thesis by (simp add: isqrt.simps)
  next
    case False
    define r where "r = isqrt (n div 4)"
    have r: "r * r \<le> n div 4" "n div 4 < (r + 1) * (r + 1)"
      using 1 False by (simp_all add: r_def)
    have "4 * (r * r) \<le> n" using r(1) by simp
    moreover have "n < 4 * ((r + 1) * (r + 1))" using r(2) by linarith
    ultimately show ?thesis
      using False by (auto simp: isqrt.simps [of n] Let_def algebra_simps simp flip: r_def)
  qed
qed

lemma ilog2_unique: "2 ^ k \<le> n \<Longrightarrow> n < 2 * 2 ^ k \<Longrightarrow> ilog2 n = k"
proof -
  assume k: "2 ^ k \<le> n" "n < 2 * 2 ^ k"
  then have "0 < n" by (meson less_le_trans zero_less_numeral zero_less_power)
  then have b: "2 ^ ilog2 n \<le> n" "n < 2 ^ Suc (ilog2 n)" using ilog2_bounds by auto
  have "(2 :: nat) ^ k < 2 ^ Suc (ilog2 n)" "(2 :: nat) ^ ilog2 n < 2 ^ Suc k"
    using k b by simp_all
  then have "k < Suc (ilog2 n)" "ilog2 n < Suc k"
    by (simp_all only: power_strict_increasing_iff one_less_numeral_iff semiring_norm)
  then show ?thesis by simp
qed

text \<open>A positive integer that fits the significand is represented exactly.\<close>

lemma lead_int: "lead n 1 = int (ilog2 n)" if "0 < n"
  using ilog2_bounds [OF that] by (simp add: lead_def Let_def ilog2_numeral)

lemma div_nearest_1 [simp]: "div_nearest a 1 = a" "div_nearest a (Suc 0) = a"
  by (simp_all add: div_nearest_def)

lemma div_mod_block:
  fixes a b k :: nat
  assumes "k < b"
  shows "(a * b + k) div b = a" and "(a * b + k) mod b = k"
  using assms by simp_all

lemma emin_bias: "2 ^ (w - 1) = B \<Longrightarrow> emin t w = 2 - int B - int t"
  by (auto simp: emin_def)

lemma fp_code_int:
  assumes "0 < n" and "n < 2 * 2 ^ t" and B: "2 ^ (w - 1) = B" "2 ^ w = 2 * B"
    and "2 \<le> B" and "t < B"
  shows "fp_code t w n 1 = (ilog2 n + B - 2) * 2 ^ t + n * 2 ^ (t - ilog2 n)"
    and "ilog2 n \<le> t" and "2 ^ t \<le> n * 2 ^ (t - ilog2 n)" and "n * 2 ^ (t - ilog2 n) < 2 * 2 ^ t"
proof -
  let ?l = "ilog2 n"
  have b: "2 ^ ?l \<le> n" "n < 2 * 2 ^ ?l" using ilog2_bounds [OF assms(1)] by auto
  have "(2 :: nat) ^ ?l < 2 ^ Suc t" using b assms(2) by simp
  then have "?l < Suc t"
    by (simp_all only: power_strict_increasing_iff one_less_numeral_iff semiring_norm)
  then show l: "?l \<le> t" by simp
  have pow: "(2 :: nat) ^ t = 2 ^ ?l * 2 ^ (t - ?l)" using l by (simp flip: power_add)
  show "2 ^ t \<le> n * 2 ^ (t - ?l)" unfolding pow using b(1) by simp
  show k2: "n * 2 ^ (t - ?l) < 2 * 2 ^ t" unfolding pow using b(2) by simp
  have q: "max (lead n 1 - int t) (emin t w) = int ?l - int t"
    using lead_int [OF assms(1)] emin_bias [OF B(1), of t] assms(5) by simp
  have E: "nat (int ?l - int t - emin t w) = ?l + B - 2"
    using emin_bias [OF B(1), of t] assms(5) by simp
  have sum: "(?l + B - 2) + 2 = ?l + B" using assms(5) by simp
  have "(?l + B - 2) * 2 ^ t + n * 2 ^ (t - ?l) \<le> (?l + B - 2) * 2 ^ t + 2 * 2 ^ t"
    using k2 by simp
  also have "\<dots> = ((?l + B - 2) + 2) * 2 ^ t"
    by (rule add_mult_distrib [symmetric])
  also have "\<dots> = (?l + B) * 2 ^ t"
    by (simp only: sum)
  also have "\<dots> \<le> (2 ^ w - 1) * 2 ^ t"
    using l assms(6) B(2) by (intro mult_right_mono) simp_all
  finally have fit: "(?l + B - 2) * 2 ^ t + n * 2 ^ (t - ?l) \<le> (2 ^ w - 1) * 2 ^ t" .
  have "nat (- (int ?l - int t)) = t - ?l" "nat (int ?l - int t) = 0" using l by simp_all
  then show "fp_code t w n 1 = (?l + B - 2) * 2 ^ t + n * 2 ^ (t - ?l)"
    using assms(1) q E fit by (simp add: fp_code_def Let_def)
qed

lemma fp_decode_int:
  assumes "0 < n" and "n < 2 * 2 ^ t" and B: "2 ^ (w - 1) = B" "2 ^ w = 2 * B"
    and "2 \<le> B" and "t < B"
  shows "fp_decode t w (fp_bits t w s n 1) = Fin s (n * 2 ^ (t - ilog2 n)) (int (ilog2 n) - int t)"
    and "fp_bits t w s n 1 < 2 * 2 ^ (t + w)"
proof -
  let ?l = "ilog2 n"
  note code = fp_code_int [OF assms]
  define E where "E = ?l + B - 2"
  define k where "k = n * 2 ^ (t - ?l) - 2 ^ t"
  have k: "k < 2 ^ t" "n * 2 ^ (t - ?l) = 2 ^ t + k" using code(3,4) by (simp_all add: k_def)
  have c: "fp_code t w n 1 = Suc E * 2 ^ t + k"
    using code(1) k(2) by (simp add: E_def)
  have E: "Suc E < 2 ^ w - 1" "Suc E = ?l + B - 1"
    using code(2) assms(5,6) B(2) by (simp_all add: E_def)
  have "fp_code t w n 1 < (Suc E + 1) * 2 ^ t" using c k(1) by simp
  also have "\<dots> \<le> 2 ^ w * 2 ^ t" using E(1) by (intro mult_right_mono) simp_all
  finally have small: "fp_code t w n 1 < 2 ^ (t + w)" by (simp add: power_add mult.commute)
  then show "fp_bits t w s n 1 < 2 * 2 ^ (t + w)" by (simp add: fp_bits_def)
  have sign: "fp_bits t w s n 1 div 2 ^ (t + w) = (if s then 1 else 0)"
    using small by (simp add: fp_bits_def div_add_self1)
  have bits: "fp_bits t w s n 1 = ((if s then 2 ^ w else 0) + Suc E) * 2 ^ t + k"
    using c by (simp add: fp_bits_def power_add algebra_simps)
  have "fp_bits t w s n 1 div 2 ^ t = (if s then 2 ^ w else 0) + Suc E"
    unfolding bits by (rule div_mod_block [OF k(1)])
  moreover have "(2 ^ w + Suc E) mod 2 ^ w = Suc E" "Suc E mod 2 ^ w = Suc E"
    using E(1) unfolding mod_add_self1 by simp_all
  ultimately have exp: "fp_bits t w s n 1 div 2 ^ t mod 2 ^ w = Suc E"
    by (cases s) (simp_all only: if_True if_False add_0)
  have mant: "fp_bits t w s n 1 mod 2 ^ t = k"
    unfolding bits by (rule div_mod_block [OF k(1)])
  have "emin t w + int (Suc E) - 1 = int ?l - int t"
    unfolding E(2) emin_bias [OF B(1)] using assms(5) by simp
  then show "fp_decode t w (fp_bits t w s n 1) = Fin s (n * 2 ^ (t - ?l)) (int ?l - int t)"
    using E(1) k(2) by (simp add: fp_decode_def sign exp mant Let_def add.commute del: One_nat_def)
qed

lemma truncate_int: "truncate_mag (n * 2 ^ (t - ilog2 n)) (int (ilog2 n) - int t) = n" if "ilog2 n \<le> t"
proof -
  have "nat (int (ilog2 n) - int t) = 0" "nat (- (int (ilog2 n) - int t)) = t - ilog2 n"
    using that by simp_all
  then show ?thesis by (simp add: truncate_mag_def)
qed

lemma dval_int:
  assumes "0 < n" and "n < 2 ^ 53"
  shows "dval (d_scaled s n 0) = Fin s (n * 2 ^ (52 - ilog2 n)) (int (ilog2 n) - 52)"
    and "ilog2 n \<le> 52"
proof -
  have b: "n < 2 * 2 ^ 52" using assms(2) by simp
  note d = fp_decode_int [OF assms(1) b, of 11 1024 s]
  show "ilog2 n \<le> 52" using fp_code_int(2) [OF assms(1) b, of 11 1024] by simp
  have "fp_bits 52 11 s n 1 < 2 ^ 64" using d(2) by simp
  then show "dval (d_scaled s n 0) = Fin s (n * 2 ^ (52 - ilog2 n)) (int (ilog2 n) - 52)"
    using d(1) unat_of_nat64 [of "fp_bits 52 11 s n 1"]
    by (simp add: dval_def d_scaled_def fp_scaled_def)
qed

lemma fval_int:
  assumes "0 < n" and "n < 2 ^ 24"
  shows "fval (of_nat (fp_scaled 23 8 s n 0)) = Fin s (n * 2 ^ (23 - ilog2 n)) (int (ilog2 n) - 23)"
    and "ilog2 n \<le> 23"
proof -
  have b: "n < 2 * 2 ^ 23" using assms(2) by simp
  note d = fp_decode_int [OF assms(1) b, of 8 128 s]
  show "ilog2 n \<le> 23" using fp_code_int(2) [OF assms(1) b, of 8 128] by simp
  have "fp_bits 23 8 s n 1 < 2 ^ 32" using d(2) by simp
  then show "fval (of_nat (fp_scaled 23 8 s n 0)) =
      Fin s (n * 2 ^ (23 - ilog2 n)) (int (ilog2 n) - 23)"
    using d(1) unat_of_nat32 [of "fp_bits 23 8 s n 1"]
    by (simp add: fval_def fp_scaled_def)
qed

lemma dval_zero [simp]: "dval 0 = Fin False 0 (- 1074)" "d_scaled False 0 e = 0"
  by (simp_all add: dval_def fp_decode_def emin_def d_scaled_def fp_scaled_def fp_bits_def fp_code_def)

text \<open>What is represented depends on the value only, not on the fraction that gives it.\<close>

lemma ilog2_shift: "0 < n \<Longrightarrow> ilog2 (n * 2 ^ j) = ilog2 n + j"
  using ilog2_bounds [of n] by (intro ilog2_unique) (simp_all add: power_add)

lemma div_nearest_shift: "0 < c \<Longrightarrow> div_nearest (a * c) (b * c) = div_nearest a b"
proof -
  assume c: "0 < c"
  have "2 * (a mod b * c) > b * c \<longleftrightarrow> 2 * (a mod b) > b"
    using c by (metis mult.assoc mult_less_cancel2)
  moreover have "2 * (a mod b * c) = b * c \<longleftrightarrow> 2 * (a mod b) = b"
    using c by (metis mult.assoc mult_right_cancel less_numeral_extra(3))
  ultimately show ?thesis
    using c by (simp add: div_nearest_def Let_def mult_mod_left [symmetric])
qed

lemma lead_shift: "0 < num \<Longrightarrow> 0 < den \<Longrightarrow> lead (num * 2 ^ j) (den * 2 ^ j) = lead num den"
  by (simp add: lead_def Let_def ilog2_shift)

lemma fp_code_shift:
  assumes "0 < den"
  shows "fp_code t w (num * 2 ^ j) (den * 2 ^ j) = fp_code t w num den"
proof (cases "num = 0")
  case False
  have "div_nearest (num * 2 ^ j * 2 ^ a) (den * 2 ^ j * 2 ^ b) = div_nearest (num * 2 ^ a) (den * 2 ^ b)" for a b
    using div_nearest_shift [of "2 ^ j" "num * 2 ^ a" "den * 2 ^ b"] by (simp add: mult.assoc mult.commute mult.left_commute)
  then show ?thesis
    using False assms by (simp add: fp_code_def lead_shift Let_def)
qed (simp add: fp_code_def)

lemma fp_scaled_shift: "fp_scaled t w s (m * 2 ^ j) e = fp_scaled t w s m (e + int j)"
proof -
  have "fp_code t w (m * 2 ^ j * 2 ^ nat e) (2 ^ nat (- e)) =
      fp_code t w (m * 2 ^ nat (e + int j)) (2 ^ nat (- (e + int j)))"
  proof (cases "e \<ge> 0")
    case True
    then have "2 ^ nat (e + int j) = (2 :: nat) ^ j * 2 ^ nat e" "nat (- e) = 0" "nat (- (e + int j)) = 0"
      by (simp_all add: nat_add_distrib power_add mult.commute)
    then show ?thesis by (simp add: mult.assoc)
  next
    case False
    define i where "i = nat (- e)"
    have e: "e = - int i" "nat e = 0" using False by (simp_all add: i_def)
    show ?thesis
    proof (cases "i \<le> j")
      case True
      then have j: "j = (j - i) + i" by simp
      have "2 ^ j = (2 :: nat) ^ (j - i) * 2 ^ i" by (subst j) (simp only: power_add)
      moreover have "nat (e + int j) = j - i" "nat (- (e + int j)) = 0" using True e by simp_all
      ultimately show ?thesis
        using fp_code_shift [of 1 t w "m * 2 ^ (j - i)" i] e
        by (simp add: i_def [symmetric] mult.assoc)
    next
      case False
      then have i: "i = (i - j) + j" by simp
      have "2 ^ i = (2 :: nat) ^ (i - j) * 2 ^ j" by (subst i) (simp only: power_add)
      moreover have "nat (e + int j) = 0" "nat (- (e + int j)) = i - j" using False e by simp_all
      ultimately show ?thesis
        using fp_code_shift [of "2 ^ (i - j)" t w m j] e by (simp add: i_def [symmetric])
    qed
  qed
  then show ?thesis by (simp add: fp_scaled_def fp_bits_def)
qed

lemma d_scaled_shift: "d_scaled s (m * 2 ^ j) e = d_scaled s m (e + int j)"
  by (simp add: d_scaled_def fp_scaled_shift)

text \<open>Sums of non-negative integers are exact as long as the operands are.\<close>

lemma dval_nat:
  assumes "n < 2 ^ 53"
  obtains m e where "dval (d_of_int (int n)) = Fin False m e" and "e \<le> 0" and "m = n * 2 ^ nat (- e)"
proof (cases "n = 0")
  case True
  then show ?thesis using that [of 0 "- 1074"] by (simp add: d_of_int_def)
next
  case False
  then have n: "0 < n" by simp
  show ?thesis
  proof (rule that)
    show "dval (d_of_int (int n)) = Fin False (n * 2 ^ (52 - ilog2 n)) (int (ilog2 n) - 52)"
      using dval_int(1) [OF n assms] by (simp only: d_of_int_def) simp
    show "int (ilog2 n) - 52 \<le> 0" using dval_int(2) [OF n assms] by simp
    have "nat (- (int (ilog2 n) - 52)) = 52 - ilog2 n" using dval_int(2) [OF n assms] by simp
    then show "n * 2 ^ (52 - ilog2 n) = n * 2 ^ nat (- (int (ilog2 n) - 52))" by (simp only:)
  qed
qed

lemma d_add_nat:
  assumes "a < 2 ^ 53" and "b < 2 ^ 53"
  shows "d_add (d_of_int (int a)) (d_of_int (int b)) = d_of_int (int (a + b))"
proof -
  obtain m e where a: "dval (d_of_int (int a)) = Fin False m e" "e \<le> 0" "m = a * 2 ^ nat (- e)"
    by (rule dval_nat [OF assms(1)])
  obtain m' e' where b: "dval (d_of_int (int b)) = Fin False m' e'" "e' \<le> 0" "m' = b * 2 ^ nat (- e')"
    by (rule dval_nat [OF assms(2)])
  define e0 where "e0 = min e e'"
  define j where "j = nat (- e0)"
  have "nat (- e) + nat (e - e0) = j" "nat (- e') + nat (e' - e0) = j"
    using a(2) b(2) by (simp_all add: j_def e0_def flip: nat_add_distrib)
  then have z: "int m * 2 ^ nat (e - e0) + int m' * 2 ^ nat (e' - e0) = int ((a + b) * 2 ^ j)"
    unfolding a(3) b(3) by (simp add: algebra_simps flip: power_add)
  define k where "k = (a + b) * 2 ^ j"
  have "d_add (d_of_int (int a)) (d_of_int (int b)) =
      (if k = 0 then d_zero False else d_scaled False k e0)"
    using z by (simp add: d_add_def a(1) b(1) signed_mant_def Let_def flip: e0_def k_def)
  moreover have "e0 \<le> 0" using a(2) by (auto simp: e0_def min_def)
  then have "e0 + int j = 0" by (simp add: j_def)
  then have "d_scaled False k e0 = d_of_int (int (a + b))"
    unfolding k_def d_scaled_shift by (simp add: d_of_int_def nat_add_distrib)
  moreover have "d_of_int (int (a + b)) = d_zero False" if "k = 0"
    using that by (simp add: k_def d_of_int_def d_zero_def)
  ultimately show ?thesis by simp
qed

end
