(* ===== verification/Global.thy ===== *)
theory Global
  imports Functor Ieee
begin

text \<open>\<^verbatim>\<open>global.c\<close>: named variables, and the operations applied to them in every frame.\<close>

section \<open>Data\<close>

definition MAX_VARIABLE_NAME :: nat where
  "MAX_VARIABLE_NAME = 16"

definition MAX_VARIABLE :: nat where
  "MAX_VARIABLE = 64"

text \<open>\<open>opcode\<close> and \<open>operator[0]\<close> are the same byte.\<close>

record op_t =
  operand :: "param list"
  operand_type :: "byte list"
  opcode :: byte

record global_t =
  g_name :: "byte list"
  g_value :: param
  g_type :: byte
  g_op :: op_t

definition op_zero :: op_t where
  "op_zero = \<lparr>operand = [Bits 0, Bits 0], operand_type = [0, 0], opcode = 0\<rparr>"

definition global_zero :: global_t where
  "global_zero =
     \<lparr>g_name = replicate MAX_VARIABLE_NAME 0, g_value = Bits 0, g_type = 0, g_op = op_zero\<rparr>"

text \<open>The types as the code writes them, with their bits: a C \<open>char\<close> per type.\<close>

definition ty_int :: byte where "ty_int = 0x69"
definition ty_double :: byte where "ty_double = 0x64"
definition ty_pointer :: byte where "ty_pointer = 0x70"

lemma type_chars: "ty_int = ch CHR ''i''" "ty_double = ch CHR ''d''" "ty_pointer = ch CHR ''p''"
  by (simp_all add: ty_int_def ty_double_def ty_pointer_def ch_def)

lemmas types = ty_int_def ty_double_def ty_pointer_def

section \<open>Operations on values\<close>

text \<open>The \<open>switch\<close> on the common bits of two types, with an integer and a double branch.\<close>

definition by_type :: "byte \<Rightarrow> 'a \<Rightarrow> 'a \<Rightarrow> 'a \<Rightarrow> 'a" where
  "by_type t i d other = (if t = ty_int then i else if t = ty_double then d else other)"

definition less_than :: "global_t \<Rightarrow> global_t \<Rightarrow> u64 res" where
  "less_than lhv rhv =
     by_type (and (g_type lhv) (g_type rhv))
       (rbind (param_bits (g_value lhv)) (\<lambda>a. rbind (param_bits (g_value rhv)) (\<lambda>b.
        Inr (of_bool (a < b)))))
       (rbind (param_bits (g_value lhv)) (\<lambda>a. rbind (param_bits (g_value rhv)) (\<lambda>b.
        Inr (of_bool (d_less a b)))))
       (Inr 0)"

definition greater_than :: "global_t \<Rightarrow> global_t \<Rightarrow> u64 res" where
  "greater_than lhv rhv =
     by_type (and (g_type lhv) (g_type rhv))
       (rbind (param_bits (g_value lhv)) (\<lambda>a. rbind (param_bits (g_value rhv)) (\<lambda>b.
        Inr (of_bool (a > b)))))
       (rbind (param_bits (g_value lhv)) (\<lambda>a. rbind (param_bits (g_value rhv)) (\<lambda>b.
        Inr (of_bool (d_less b a)))))
       (Inr 0)"

text \<open>The new value of a double is converted to the returned \<open>size_t\<close>.\<close>

definition increment :: "global_t \<Rightarrow> (u64 \<times> global_t) res" where
  "increment var =
     by_type (g_type var)
       (rbind (param_bits (g_value var)) (\<lambda>a. Inr (a + 1, var\<lparr>g_value := Bits (a + 1)\<rparr>)))
       (rbind (param_bits (g_value var)) (\<lambda>a.
        let r = d_add a (d_of_int 1)
        in rbind (d_to_u64 r) (\<lambda>n. Inr (n, var\<lparr>g_value := Bits r\<rparr>))))
       (Inr (0, var))"

definition decrement :: "global_t \<Rightarrow> (u64 \<times> global_t) res" where
  "decrement var =
     by_type (g_type var)
       (rbind (param_bits (g_value var)) (\<lambda>a. Inr (a - 1, var\<lparr>g_value := Bits (a - 1)\<rparr>)))
       (rbind (param_bits (g_value var)) (\<lambda>a.
        let r = d_sub a (d_of_int 1)
        in rbind (d_to_u64 r) (\<lambda>n. Inr (n, var\<lparr>g_value := Bits r\<rparr>))))
       (Inr (0, var))"

definition global_init :: "byte list \<Rightarrow> global_t" where
  "global_init name =
     global_zero\<lparr>g_name := (strncpy name MAX_VARIABLE_NAME)[MAX_VARIABLE_NAME - 1 := 0]\<rparr>"

definition perform_op_double :: "byte \<Rightarrow> double \<Rightarrow> double \<Rightarrow> double" where
  "perform_op_double opc lhv rhv =
     (if opc = ch CHR ''+'' then d_add lhv rhv
      else if opc = ch CHR ''-'' then d_sub lhv rhv
      else if opc = ch CHR ''>'' then d_of_int (of_bool (d_less rhv lhv))
      else if opc = ch CHR ''<'' then d_of_int (of_bool (d_less lhv rhv))
      else d_of_int 0)"

definition perform_op_int :: "byte \<Rightarrow> u64 \<Rightarrow> u64 \<Rightarrow> u64" where
  "perform_op_int opc lhv rhv =
     (if opc = ch CHR ''+'' then lhv + rhv
      else if opc = ch CHR ''-'' then lhv - rhv
      else if opc = ch CHR ''>'' then of_bool (lhv > rhv)
      else if opc = ch CHR ''<'' then of_bool (lhv < rhv)
      else 0)"

text \<open>An operand: the type and the value of the variable pointed to, or the constant.\<close>

definition fetch_operand :: "global_t list \<Rightarrow> op_t \<Rightarrow> nat \<Rightarrow> (byte \<times> param) res" where
  "fetch_operand vars op i =
     (let op_type = operand_type op ! i in
      if op_type = ty_pointer then
        rbind (param_addr (operand op ! i)) (\<lambda>a.
        case a of
          PVar k \<Rightarrow> if k < length vars then Inr (g_type (vars ! k), g_value (vars ! k))
                    else Inl OutOfBounds
        | _ \<Rightarrow> Inl BadTag)
      else Inr (op_type, operand op ! i))"

text \<open>The result goes to \<open>out\<close>, which keeps what it held when the operands' types differ.\<close>

definition perform_op :: "global_t list \<Rightarrow> op_t \<Rightarrow> param \<Rightarrow> (byte \<times> param) res" where
  "perform_op vars op out =
     rbind (fetch_operand vars op 0) (\<lambda>(t0, v0).
     rbind (fetch_operand vars op 1) (\<lambda>(t1, v1).
     let op_type = and t0 t1 in
     rbind (by_type op_type
              (rbind (param_bits v0) (\<lambda>a. rbind (param_bits v1) (\<lambda>b.
               Inr (Bits (perform_op_int (opcode op) a b)))))
              (rbind (param_bits v0) (\<lambda>a. rbind (param_bits v1) (\<lambda>b.
               Inr (Bits (perform_op_double (opcode op) a b)))))
              (Inr out)) (\<lambda>out'.
     Inr (op_type, out'))))"

section \<open>The table\<close>

record globals_t =
  global_var :: "global_t list"
  global_used :: nat

definition globals_start :: globals_t where
  "globals_start = \<lparr>global_var = replicate MAX_VARIABLE global_zero, global_used = 0\<rparr>"

definition global_append :: "global_t \<Rightarrow> globals_t \<Rightarrow> bool \<times> globals_t" where
  "global_append var g =
     (if global_used g \<ge> MAX_VARIABLE then (False, g)
      else (True, \<lparr>global_var = (global_var g)[global_used g := var],
                   global_used = global_used g + 1\<rparr>))"

definition global_get :: "byte list \<Rightarrow> globals_t \<Rightarrow> nat option" where
  "global_get name g =
     find (\<lambda>i. strncmp_eq MAX_VARIABLE_NAME name (cstr (g_name (global_var g ! i))))
       [0..<global_used g]"

definition global_get_or_create :: "byte list \<Rightarrow> globals_t \<Rightarrow> nat option \<times> globals_t" where
  "global_get_or_create name g =
     (case global_get name g of
        Some i \<Rightarrow> (Some i, g)
      | None \<Rightarrow>
          if global_used g \<ge> MAX_VARIABLE then (None, g)
          else
            let idx = global_used g
            in (Some idx, \<lparr>global_var = (global_var g)[idx := global_init name],
                           global_used = global_used g + 1\<rparr>))"

text \<open>
  One round of \<open>global_var_ops\<close>. The local \<open>result\<close> is not initialised: \<open>junk\<close> is what the
  stack holds.
\<close>

definition global_var_op :: "param \<Rightarrow> nat \<Rightarrow> globals_t \<Rightarrow> globals_t res" where
  "global_var_op junk i g =
     (let var = global_var g ! i in
      if opcode (g_op var) = 0 then Inr g
      else
        rbind (perform_op (global_var g) (g_op var) junk) (\<lambda>(result_type, result).
        Inr (g\<lparr>global_var := (global_var g)[i := var\<lparr>g_value := result, g_type := result_type\<rparr>]\<rparr>)))"

fun global_var_ops_from :: "(nat \<Rightarrow> param) \<Rightarrow> nat list \<Rightarrow> globals_t \<Rightarrow> globals_t res" where
  "global_var_ops_from junk [] g = Inr g"
| "global_var_ops_from junk (i # is) g =
     rbind (global_var_op (junk i) i g) (global_var_ops_from junk is)"

definition global_var_ops :: "(nat \<Rightarrow> param) \<Rightarrow> globals_t \<Rightarrow> globals_t res" where
  "global_var_ops junk g = global_var_ops_from junk [0..<global_used g] g"

section \<open>Names\<close>

text \<open>What a table of named slots promises: a name that was created is found again, in a slot of its
  own, until the table is full.\<close>

locale name_table =
  fixes get :: "'k \<Rightarrow> 't \<Rightarrow> nat option"
    and create :: "'k \<Rightarrow> 't \<Rightarrow> nat option \<times> 't"
    and valid :: "'k \<Rightarrow> bool"
    and inv :: "'t \<Rightarrow> bool"
    and used :: "'t \<Rightarrow> nat"
    and cap :: nat
  assumes get_used: "inv t \<Longrightarrow> get k t = Some i \<Longrightarrow> i < used t"
    and get_inj: "inv t \<Longrightarrow> get k t = Some i \<Longrightarrow> get k' t = Some i \<Longrightarrow> k = k'"
    and create_found: "get k t = Some i \<Longrightarrow> create k t = (Some i, t)"
    and create_new: "inv t \<Longrightarrow> valid k \<Longrightarrow> get k t = None \<Longrightarrow> used t < cap \<Longrightarrow>
      \<exists>t'. create k t = (Some (used t), t') \<and> inv t' \<and> used t' = Suc (used t) \<and>
        get k t' = Some (used t) \<and> (\<forall>k'. k' \<noteq> k \<longrightarrow> get k' t' = get k' t)"
begin

definition create_all :: "'k list \<Rightarrow> 't \<Rightarrow> 't" where
  "create_all ks t = fold (\<lambda>k t. snd (create k t)) ks t"

lemma create_all_simps [simp]:
  "create_all [] t = t" "create_all (k # ks) t = create_all ks (snd (create k t))"
  by (simp_all add: create_all_def)

lemma create_keeps:
  assumes "inv t" and "valid k" and "used t < cap"
  shows "inv (snd (create k t))" and "used (snd (create k t)) \<le> Suc (used t)"
    and "\<exists>i. get k (snd (create k t)) = Some i"
    and "k' \<noteq> k \<Longrightarrow> get k' (snd (create k t)) = get k' t"
    and "get k' t = Some j \<Longrightarrow> get k' (snd (create k t)) = Some j"
proof -
  consider i where "get k t = Some i" | "get k t = None" by (cases "get k t") auto
  then have "inv (snd (create k t)) \<and> used (snd (create k t)) \<le> Suc (used t) \<and>
    (\<exists>i. get k (snd (create k t)) = Some i) \<and>
    (k' \<noteq> k \<longrightarrow> get k' (snd (create k t)) = get k' t) \<and>
    (get k' t = Some j \<longrightarrow> get k' (snd (create k t)) = Some j)"
  proof cases
    case 1
    then show ?thesis using create_found assms(1) by auto
  next
    case 2
    obtain t' where "create k t = (Some (used t), t')" "inv t'" "used t' = Suc (used t)"
      "get k t' = Some (used t)" "\<forall>k'. k' \<noteq> k \<longrightarrow> get k' t' = get k' t"
      using create_new [OF assms(1,2) 2 assms(3)] by blast
    then show ?thesis using 2 by (cases "k' = k") auto
  qed
  then show "inv (snd (create k t))" and "used (snd (create k t)) \<le> Suc (used t)"
    and "\<exists>i. get k (snd (create k t)) = Some i"
    and "k' \<noteq> k \<Longrightarrow> get k' (snd (create k t)) = get k' t"
    and "get k' t = Some j \<Longrightarrow> get k' (snd (create k t)) = Some j"
    by blast+
qed

lemma create_all_keeps:
  "inv t \<Longrightarrow> \<forall>k \<in> set ks. valid k \<Longrightarrow> used t + length ks \<le> cap \<Longrightarrow>
   inv (create_all ks t) \<and> (k' \<notin> set ks \<longrightarrow> get k' (create_all ks t) = get k' t) \<and>
   (get k' t = Some j \<longrightarrow> get k' (create_all ks t) = Some j)"
proof (induction ks arbitrary: t)
  case (Cons k ks)
  have room: "used t < cap" "valid k" using Cons.prems by simp_all
  have "used (snd (create k t)) + length ks \<le> cap"
    using create_keeps(2) [OF Cons.prems(1) room(2,1)] Cons.prems(3) by simp
  moreover have "inv (snd (create k t))"
    using create_keeps(1) [OF Cons.prems(1) room(2,1)] .
  ultimately show ?case
    using Cons.IH [of "snd (create k t)"] Cons.prems(2) create_keeps(4,5) [OF Cons.prems(1) room(2,1)]
    by simp
qed simp

lemma create_all_found:
  "inv t \<Longrightarrow> \<forall>k \<in> set ks. valid k \<Longrightarrow> used t + length ks \<le> cap \<Longrightarrow> k \<in> set ks \<Longrightarrow>
   \<exists>i. get k (create_all ks t) = Some i"
proof (induction ks arbitrary: t)
  case (Cons k' ks)
  have room: "used t < cap" "valid k'" using Cons.prems by simp_all
  have fit: "used (snd (create k' t)) + length ks \<le> cap"
    using create_keeps(2) [OF Cons.prems(1) room(2,1)] Cons.prems(3) by simp
  have inv': "inv (snd (create k' t))"
    using create_keeps(1) [OF Cons.prems(1) room(2,1)] .
  show ?case
  proof (cases "k = k'")
    case True
    obtain i where "get k (snd (create k' t)) = Some i"
      using create_keeps(3) [OF Cons.prems(1) room(2,1)] True by blast
    then show ?thesis
      using create_all_keeps [OF inv' _ fit] Cons.prems(2) True room(2) by auto
  next
    case False
    then show ?thesis using Cons.IH [OF inv' _ fit] Cons.prems(2,4) by simp
  qed
qed simp

lemma own_slots:
  assumes "inv t" and "\<forall>k \<in> set ks. valid k" and "used t + length ks \<le> cap" and "k \<in> set ks"
  shows "\<exists>i. i < used (create_all ks t) \<and> get k (create_all ks t) = Some i \<and>
    create k (create_all ks t) = (Some i, create_all ks t) \<and>
    (\<forall>m. m \<noteq> k \<longrightarrow> get m (create_all ks t) \<noteq> Some i)"
proof -
  obtain i where i: "get k (create_all ks t) = Some i"
    using create_all_found [OF assms] by blast
  have inv': "inv (create_all ks t)" using create_all_keeps [OF assms(1-3)] by blast
  then have "i < used (create_all ks t)" using get_used i by blast
  moreover have "create k (create_all ks t) = (Some i, create_all ks t)"
    using create_found [OF i] .
  moreover have "get m (create_all ks t) \<noteq> Some i" if "m \<noteq> k" for m
    using get_inj [OF inv' i] that by metis
  ultimately show ?thesis using i by blast
qed

lemma others_unchanged:
  assumes "inv t" and "\<forall>k \<in> set ks. valid k" and "used t + length ks \<le> cap" and "m \<notin> set ks"
  shows "get m (create_all ks t) = get m t"
  using create_all_keeps [OF assms(1-3)] assms(4) by blast

end

text \<open>The table's invariant: names are terminated, values are bits, and an operand is either a
  pointer to a variable, marked as such, or bits.\<close>

definition operand_wf :: "byte \<Rightarrow> param \<Rightarrow> bool" where
  "operand_wf t p \<longleftrightarrow>
     (case p of Bits w \<Rightarrow> t \<noteq> ty_pointer
      | Addr a \<Rightarrow> t = ty_pointer \<and> (case a of PVar k \<Rightarrow> k < MAX_VARIABLE | _ \<Rightarrow> False))"

definition op_wf :: "op_t \<Rightarrow> bool" where
  "op_wf op \<longleftrightarrow>
     length (operand op) = 2 \<and> length (operand_type op) = 2 \<and>
     (\<forall>i < 2. operand_wf (operand_type op ! i) (operand op ! i))"

definition is_bits :: "param \<Rightarrow> bool" where
  "is_bits p \<longleftrightarrow> (case p of Bits _ \<Rightarrow> True | Addr _ \<Rightarrow> False)"

definition var_wf :: "global_t \<Rightarrow> bool" where
  "var_wf v \<longleftrightarrow>
     length (g_name v) = MAX_VARIABLE_NAME \<and> last (g_name v) = 0 \<and> is_bits (g_value v) \<and> op_wf (g_op v)"

definition globals_wf :: "globals_t \<Rightarrow> bool" where
  "globals_wf g \<longleftrightarrow>
     length (global_var g) = MAX_VARIABLE \<and> global_used g \<le> MAX_VARIABLE \<and>
     (\<forall>v \<in> set (global_var g). var_wf v)"

definition short_name :: "byte list \<Rightarrow> bool" where
  "short_name n \<longleftrightarrow> nul_free n \<and> length n < MAX_VARIABLE_NAME"

lemma is_bits_simps [simp]: "is_bits (Bits w)" "\<not> is_bits (Addr a)"
  by (simp_all add: is_bits_def)

lemma is_bitsE: "is_bits p \<Longrightarrow> (\<And>w. p = Bits w \<Longrightarrow> P) \<Longrightarrow> P"
  by (cases p) auto

lemma op_zero_wf [simp]: "op_wf op_zero"
  by (auto simp: op_wf_def op_zero_def operand_wf_def types less_2_cases_iff)

lemma name_array:
  assumes "nul_free n"
  shows "cstr (g_name (global_init n)) = take 15 n" and "length (g_name (global_init n)) = 16"
    and "last (g_name (global_init n)) = 0"
proof -
  let ?a = "(strncpy n MAX_VARIABLE_NAME)[MAX_VARIABLE_NAME - 1 := 0]"
  have a: "?a = take 15 n @ 0 # replicate (15 - length n) 0"
  proof (cases "length n < 16")
    case True
    then have n: "take 15 n = n" "16 - length n = Suc (15 - length n)" by simp_all
    show ?thesis
    proof (cases "length n = 15")
      case True
      then show ?thesis by (simp add: strncpy_def MAX_VARIABLE_NAME_def list_update_append)
    next
      case False
      then have "(15 - length n) \<noteq> 0" using \<open>length n < 16\<close> by simp
      moreover have "(replicate (16 - length n) (0 :: byte))[15 - length n := 0] =
          replicate (16 - length n) 0"
        using \<open>length n < 16\<close> by (simp add: list_update_same_conv)
      ultimately show ?thesis
        using \<open>length n < 16\<close> n
        by (simp add: strncpy_def MAX_VARIABLE_NAME_def list_update_append)
    qed
  next
    case False
    then have "take 16 n = take 15 n @ [n ! 15]"
      using take_Suc_conv_app_nth [of 15 n] by simp
    then show ?thesis
      using False by (simp add: strncpy_def MAX_VARIABLE_NAME_def list_update_append)
  qed
  have name: "g_name (global_init n) = take 15 n @ 0 # replicate (15 - length n) 0"
    using a by (simp add: global_init_def)
  have "nul_free (take 15 n)" using assms by (auto simp: nul_free_def dest: in_set_takeD)
  then show "cstr (g_name (global_init n)) = take 15 n"
    by (simp add: name)
  show "length (g_name (global_init n)) = 16" "last (g_name (global_init n)) = 0"
    by (auto simp: name)
qed

lemma global_init_wf: "nul_free n \<Longrightarrow> var_wf (global_init n)"
  using name_array [of n]
  by (simp add: var_wf_def MAX_VARIABLE_NAME_def) (simp add: global_init_def global_zero_def)

lemma short_cstr: "var_wf v \<Longrightarrow> length (cstr (g_name v)) < MAX_VARIABLE_NAME"
proof -
  assume v: "var_wf v"
  then have "g_name v \<noteq> []" by (auto simp: var_wf_def MAX_VARIABLE_NAME_def)
  then have "0 \<in> set (g_name v)" using v last_in_set by (fastforce simp: var_wf_def)
  then obtain r where "g_name v = cstr (g_name v) @ 0 # r" using cstr_split by blast
  from arg_cong [OF this, of length] show ?thesis using v by (simp add: var_wf_def)
qed

text \<open>Looking a name up: the stored names are shorter than the array, so a name matches exactly when
  it is equal, and a name of 16 characters or more matches nothing.\<close>

lemma match_iff:
  "var_wf v \<Longrightarrow> strncmp_eq MAX_VARIABLE_NAME n (cstr (g_name v)) \<longleftrightarrow> n = cstr (g_name v)"
proof -
  assume v: "var_wf v"
  have c: "take MAX_VARIABLE_NAME (cstr (g_name v)) = cstr (g_name v)"
    using short_cstr [OF v] by simp
  have "take MAX_VARIABLE_NAME n = cstr (g_name v) \<longleftrightarrow> n = cstr (g_name v)"
  proof
    assume e: "take MAX_VARIABLE_NAME n = cstr (g_name v)"
    then have "length (take MAX_VARIABLE_NAME n) < MAX_VARIABLE_NAME"
      using short_cstr [OF v] by simp
    then have "take MAX_VARIABLE_NAME n = n" by simp
    then show "n = cstr (g_name v)" using e by simp
  qed (use c in simp)
  then show ?thesis by (simp add: strncmp_eq_iff c)
qed

lemma globals_nth_wf:
  "globals_wf g \<Longrightarrow> i < global_used g \<Longrightarrow> var_wf (global_var g ! i)"
  by (auto simp: globals_wf_def)

lemma global_get_Some:
  assumes "globals_wf g" and "global_get n g = Some i"
  shows "i < global_used g" and "cstr (g_name (global_var g ! i)) = n"
proof -
  have m: "strncmp_eq MAX_VARIABLE_NAME n (cstr (g_name (global_var g ! i)))" "i < global_used g"
    using assms(2) by (auto simp: global_get_def find_Some_iff)
  then show "i < global_used g" "cstr (g_name (global_var g ! i)) = n"
    using match_iff globals_nth_wf [OF assms(1)] by auto
qed

lemma global_get_None:
  assumes "globals_wf g"
  shows "global_get n g = None \<longleftrightarrow> (\<forall>i < global_used g. cstr (g_name (global_var g ! i)) \<noteq> n)"
  using match_iff globals_nth_wf [OF assms]
  by (auto simp: global_get_def find_None_iff)

lemma find_append:
  "find P (xs @ ys) = (case find P xs of Some x \<Rightarrow> Some x | None \<Rightarrow> find P ys)"
  by (induction xs) auto

lemma global_get_extend:
  assumes wf: "globals_wf g" and room: "global_used g < MAX_VARIABLE"
    and v: "var_wf v"
    and g': "g' = \<lparr>global_var = (global_var g)[global_used g := v], global_used = Suc (global_used g)\<rparr>"
  shows "globals_wf g'"
    and "global_get n g' = (case global_get n g of Some i \<Rightarrow> Some i
       | None \<Rightarrow> if n = cstr (g_name v) then Some (global_used g) else None)"
proof -
  have len: "length (global_var g) = MAX_VARIABLE" using wf by (simp add: globals_wf_def)
  show "globals_wf g'"
    using wf room v set_update_subset_insert [of "global_var g" "global_used g" v]
    by (auto simp: g' globals_wf_def)
  let ?m = "\<lambda>vs i. strncmp_eq MAX_VARIABLE_NAME n (cstr (g_name (vs ! i)))"
  have old: "find (?m (global_var g')) [0..<global_used g] = global_get n g"
    unfolding global_get_def by (rule find_cong) (auto simp: g')
  have "?m (global_var g') (global_used g) \<longleftrightarrow> n = cstr (g_name v)"
    using match_iff [OF v] len room by (simp add: g')
  then show "global_get n g' = (case global_get n g of Some i \<Rightarrow> Some i
       | None \<Rightarrow> if n = cstr (g_name v) then Some (global_used g) else None)"
  proof -
    assume last: "?m (global_var g') (global_used g) \<longleftrightarrow> n = cstr (g_name v)"
    have "global_get n g' = find (?m (global_var g')) ([0..<global_used g] @ [global_used g])"
      by (simp add: global_get_def g')
    then show ?thesis
      unfolding find_append old by (cases "global_get n g") (simp_all add: last)
  qed
qed

lemma short_name_cstr: "short_name n \<Longrightarrow> cstr (g_name (global_init n)) = n"
  using name_array(1) [of n] by (simp add: short_name_def MAX_VARIABLE_NAME_def)

interpretation vars: name_table global_get global_get_or_create short_name globals_wf global_used
    MAX_VARIABLE
proof
  fix k k' g i
  show "globals_wf g \<Longrightarrow> global_get k g = Some i \<Longrightarrow> i < global_used g"
    by (rule global_get_Some)
  show "globals_wf g \<Longrightarrow> global_get k g = Some i \<Longrightarrow> global_get k' g = Some i \<Longrightarrow> k = k'"
    using global_get_Some(2) by metis
  show "global_get k g = Some i \<Longrightarrow> global_get_or_create k g = (Some i, g)"
    by (simp add: global_get_or_create_def)
next
  fix k g
  assume g: "globals_wf g" "short_name k" "global_get k g = None" "global_used g < MAX_VARIABLE"
  define g' where "g' = \<lparr>global_var = (global_var g)[global_used g := global_init k],
      global_used = Suc (global_used g)\<rparr>"
  have create: "global_get_or_create k g = (Some (global_used g), g')"
    using g(3,4) by (simp add: global_get_or_create_def g'_def Let_def)
  have "var_wf (global_init k)" using g(2) global_init_wf by (simp add: short_name_def)
  note ext = global_get_extend [OF g(1,4) this g'_def]
  show "\<exists>g'. global_get_or_create k g = (Some (global_used g), g') \<and> globals_wf g' \<and>
      global_used g' = Suc (global_used g) \<and> global_get k g' = Some (global_used g) \<and>
      (\<forall>k'. k' \<noteq> k \<longrightarrow> global_get k' g' = global_get k' g)"
    using create ext short_name_cstr [OF g(2)] g(3)
    by (intro exI [of _ g']) (auto simp: g'_def split: option.splits)
qed

section \<open>Operations in every frame\<close>

lemma fetch_operand_wf:
  assumes "op_wf op" and "length vars = MAX_VARIABLE" and "\<forall>v \<in> set vars. var_wf v" and "i < 2"
  shows "\<exists>t w. fetch_operand vars op i = Inr (t, Bits w)"
proof -
  have wf: "operand_wf (operand_type op ! i) (operand op ! i)"
    using assms(1,4) by (simp add: op_wf_def)
  show ?thesis
  proof (cases "operand op ! i")
    case (Bits w)
    then show ?thesis using wf by (simp add: fetch_operand_def operand_wf_def Let_def)
  next
    case (Addr a)
    then obtain k where k: "a = PVar k" "k < MAX_VARIABLE" "operand_type op ! i = ty_pointer"
      using wf by (cases a) (auto simp: operand_wf_def)
    have "var_wf (vars ! k)" using assms(2,3) k(2) by simp
    then obtain w where "g_value (vars ! k) = Bits w" by (auto simp: var_wf_def elim: is_bitsE)
    then show ?thesis using k Addr assms(2) by (simp add: fetch_operand_def)
  qed
qed

lemma perform_op_wf:
  assumes "op_wf op" and "length vars = MAX_VARIABLE" and "\<forall>v \<in> set vars. var_wf v" and "is_bits out"
  shows "\<exists>t w. perform_op vars op out = Inr (t, Bits w)"
proof -
  obtain t0 w0 t1 w1 where "fetch_operand vars op 0 = Inr (t0, Bits w0)"
    "fetch_operand vars op 1 = Inr (t1, Bits w1)"
    using fetch_operand_wf [OF assms(1-3), of 0] fetch_operand_wf [OF assms(1-3), of 1] by auto
  moreover obtain w where "out = Bits w" using assms(4) by (rule is_bitsE)
  ultimately show ?thesis by (simp add: perform_op_def by_type_def Let_def)
qed

lemma global_var_op_wf:
  assumes "globals_wf g" and "i < global_used g" and "is_bits junk"
  shows "\<exists>g'. global_var_op junk i g = Inr g' \<and> globals_wf g' \<and> global_used g' = global_used g \<and>
    (\<forall>j. g_name (global_var g' ! j) = g_name (global_var g ! j) \<and>
         g_op (global_var g' ! j) = g_op (global_var g ! j)) \<and>
    (\<forall>j. j \<noteq> i \<longrightarrow> global_var g' ! j = global_var g ! j)"
proof (cases "opcode (g_op (global_var g ! i)) = 0")
  case True
  then show ?thesis using assms(1) by (simp add: global_var_op_def)
next
  case False
  have v: "var_wf (global_var g ! i)" using globals_nth_wf assms by blast
  have len: "i < length (global_var g)" using assms by (simp add: globals_wf_def)
  obtain t w where r: "perform_op (global_var g) (g_op (global_var g ! i)) junk = Inr (t, Bits w)"
    using perform_op_wf [of "g_op (global_var g ! i)" "global_var g" junk] assms(1,3) v
    by (auto simp: globals_wf_def var_wf_def)
  let ?v = "(global_var g ! i)\<lparr>g_value := Bits w, g_type := t\<rparr>"
  have "var_wf ?v" using v by (simp add: var_wf_def)
  then have "globals_wf (g\<lparr>global_var := (global_var g)[i := ?v]\<rparr>)"
    using assms(1) set_update_subset_insert [of "global_var g" i ?v] by (auto simp: globals_wf_def)
  then show ?thesis
    using r False len by (simp add: global_var_op_def nth_list_update)
qed

lemma global_var_ops_from_wf:
  assumes "globals_wf g" and "\<forall>i \<in> set is. i < global_used g" and "\<And>i. is_bits (junk i)"
  shows "\<exists>g'. global_var_ops_from junk is g = Inr g' \<and> globals_wf g' \<and>
    global_used g' = global_used g \<and>
    (\<forall>j. g_name (global_var g' ! j) = g_name (global_var g ! j) \<and>
         g_op (global_var g' ! j) = g_op (global_var g ! j)) \<and>
    (\<forall>j. j \<notin> set is \<longrightarrow> global_var g' ! j = global_var g ! j)"
  using assms(1,2)
proof (induction "is" arbitrary: g)
  case Nil
  then show ?case by simp
next
  case (Cons i "is")
  have "i < global_used g" using Cons.prems(2) by simp
  obtain g1 where g1: "global_var_op (junk i) i g = Inr g1" "globals_wf g1"
    "global_used g1 = global_used g"
    "\<forall>j. g_name (global_var g1 ! j) = g_name (global_var g ! j) \<and>
         g_op (global_var g1 ! j) = g_op (global_var g ! j)"
    "\<forall>j. j \<noteq> i \<longrightarrow> global_var g1 ! j = global_var g ! j"
    using global_var_op_wf [OF Cons.prems(1) \<open>i < global_used g\<close> assms(3)] by blast
  obtain g' where "global_var_ops_from junk is g1 = Inr g'" "globals_wf g'"
    "global_used g' = global_used g1"
    "\<forall>j. g_name (global_var g' ! j) = g_name (global_var g1 ! j) \<and>
         g_op (global_var g' ! j) = g_op (global_var g1 ! j)"
    "\<forall>j. j \<notin> set is \<longrightarrow> global_var g' ! j = global_var g1 ! j"
    using Cons.IH [OF g1(2)] Cons.prems(2) g1(3) by auto
  then show ?case using g1 by auto
qed

text \<open>The uninitialised local is never read when every operation of the frame, at its turn, has operands
  of the same type, an integer or a double.\<close>

fun junk_free :: "nat list \<Rightarrow> globals_t \<Rightarrow> bool" where
  "junk_free [] g = True"
| "junk_free (i # is) g =
     (case global_var_op (Bits 0) i g of
        Inl _ \<Rightarrow> False
      | Inr g' \<Rightarrow> (opcode (g_op (global_var g ! i)) = 0 \<or> g_type (global_var g' ! i) \<in> {ty_int, ty_double}) \<and>
                  junk_free is g')"

lemma global_var_op_junk:
  assumes "i < length (global_var g)" and "global_var_op (Bits 0) i g = Inr g'"
    and "opcode (g_op (global_var g ! i)) = 0 \<or> g_type (global_var g' ! i) \<in> {ty_int, ty_double}"
  shows "global_var_op junk i g = Inr g'"
proof (cases "opcode (g_op (global_var g ! i)) = 0")
  case True
  then show ?thesis using assms(2) by (simp add: global_var_op_def)
next
  case False
  then obtain t v where r: "perform_op (global_var g) (g_op (global_var g ! i)) (Bits 0) = Inr (t, v)"
    "g' = g\<lparr>global_var := (global_var g)[i := (global_var g ! i)\<lparr>g_value := v, g_type := t\<rparr>]\<rparr>"
    using assms(2) by (auto simp: global_var_op_def rbind_eq_Inr Let_def)
  then have "t \<in> {ty_int, ty_double}" using assms(1,3) False by simp
  then have "perform_op (global_var g) (g_op (global_var g ! i)) junk = Inr (t, v)"
    using r(1) by (auto simp: perform_op_def by_type_def Let_def rbind_eq_Inr split: if_splits)
  then show ?thesis using r(2) False by (simp add: global_var_op_def)
qed

lemma junk_free_any:
  assumes "globals_wf g" and "\<forall>i \<in> set is. i < global_used g" and "junk_free is g"
  shows "global_var_ops_from junk is g = global_var_ops_from (\<lambda>_. Bits 0) is g"
  using assms
proof (induction "is" arbitrary: g)
  case (Cons i "is")
  obtain g' where g': "global_var_op (Bits 0) i g = Inr g'" "globals_wf g'" "global_used g' = global_used g"
    using global_var_op_wf [OF Cons.prems(1), of i "Bits 0"] Cons.prems(2) by auto
  have "i < length (global_var g)" using Cons.prems(1,2) by (simp add: globals_wf_def)
  then have "global_var_op (junk i) i g = Inr g'"
    using global_var_op_junk [OF _ g'(1)] Cons.prems(3) g'(1) by simp
  then show ?case using Cons g' by simp
qed simp

section \<open>Properties\<close>

text \<open>C14: Names of up to 15 characters work: after any such names are asked for, as many as fit the
  table, each has a slot of its own, asking again finds it and changes nothing, and no other name of
  any length finds it. Names that were not asked for are found where they were before, or still
  not at all.\<close>

theorem variables_have_own_slots:
  assumes "globals_wf g" and "\<forall>n \<in> set names. short_name n"
    and "global_used g + length names \<le> MAX_VARIABLE" and "n \<in> set names"
    and "g' = fold (\<lambda>n g. snd (global_get_or_create n g)) names g"
  shows "\<exists>i < global_used g'. global_get n g' = Some i \<and>
    global_get_or_create n g' = (Some i, g') \<and>
    (\<forall>m. m \<noteq> n \<longrightarrow> global_get m g' \<noteq> Some i) \<and>
    (\<forall>m. m \<notin> set names \<longrightarrow> global_get m g' = global_get m g)"
  using vars.own_slots [OF assms(1-4)] vars.others_unchanged [OF assms(1-3)]
  unfolding vars.create_all_def assms(5) by blast

lemma globals_start_wf [simp]: "globals_wf globals_start"
  by (simp add: globals_wf_def globals_start_def var_wf_def global_zero_def MAX_VARIABLE_NAME_def MAX_VARIABLE_def)

theorem variables_have_own_slots_witness:
  "\<exists>i. global_get (str ''hp'') (fold (\<lambda>n g. snd (global_get_or_create n g))
      [str ''hp'', str ''gold''] globals_start) = Some i \<and>
    global_get (str ''xp'') (fold (\<lambda>n g. snd (global_get_or_create n g))
      [str ''hp'', str ''gold''] globals_start) = None"
proof -
  have "\<forall>n \<in> set [str ''hp'', str ''gold'']. short_name n"
    by (simp add: short_name_def MAX_VARIABLE_NAME_def ch_def)
  note own = variables_have_own_slots [OF globals_start_wf this _ _ refl, of "str ''hp''"]
  have "global_get (str ''xp'') globals_start = None" by (simp add: global_get_def globals_start_def)
  moreover have "str ''xp'' \<notin> set [str ''hp'', str ''gold'']" by (simp add: ch_def)
  ultimately show ?thesis
    using own by (fastforce simp: globals_start_def MAX_VARIABLE_def simp del: fold_simps)
qed

lemma long_name_get:
  "globals_wf g \<Longrightarrow> MAX_VARIABLE_NAME \<le> length n \<Longrightarrow> global_get n g = None"
  using short_cstr globals_nth_wf by (fastforce simp: global_get_None)

text \<open>A name of 16 characters or more is never found again: every use of it takes a new slot,
  and after as many uses as there are free slots no variable can be made any more.\<close>

theorem long_names_exhaust:
  assumes "globals_wf g" and "nul_free n" and "MAX_VARIABLE_NAME \<le> length n"
    and "global_used g + k \<le> MAX_VARIABLE"
    and "g' = ((\<lambda>g. snd (global_get_or_create n g)) ^^ k) g"
  shows "global_used g' = global_used g + k \<and> global_get n g' = None \<and>
    (global_used g + k = MAX_VARIABLE \<longrightarrow>
      (\<forall>m. global_get m g' = None \<longrightarrow> global_get_or_create m g' = (None, g')))"
proof -
  have "globals_wf (((\<lambda>g. snd (global_get_or_create n g)) ^^ k) g) \<and>
      global_used (((\<lambda>g. snd (global_get_or_create n g)) ^^ k) g) = global_used g + k"
    using assms(4)
  proof (induction k)
    case 0
    then show ?case using assms(1) by simp
  next
    case (Suc k)
    define h where "h = ((\<lambda>g. snd (global_get_or_create n g)) ^^ k) g"
    have h: "globals_wf h" "global_used h = global_used g + k" using Suc by (simp_all add: h_def)
    have room: "global_used h < MAX_VARIABLE" using h(2) Suc.prems by simp
    define h' where "h' = \<lparr>global_var = (global_var h)[global_used h := global_init n],
        global_used = Suc (global_used h)\<rparr>"
    have "snd (global_get_or_create n h) = h'"
      using long_name_get [OF h(1) assms(3)] room
      by (simp add: global_get_or_create_def h'_def Let_def)
    moreover have "globals_wf h'"
      using global_get_extend(1) [OF h(1) room global_init_wf [OF assms(2)] h'_def] .
    ultimately show ?case using h(2) by (simp add: h'_def flip: h_def)
  qed
  then show ?thesis
    using long_name_get [OF _ assms(3)] assms(5)
    by (auto simp: global_get_or_create_def)
qed

theorem long_names_exhaust_witness:
  "\<exists>g. global_used g = 64 \<and> global_get_or_create (replicate 16 97) g = (None, g)"
proof -
  have n: "nul_free (replicate 16 97)" "MAX_VARIABLE_NAME \<le> length (replicate 16 (97 :: byte))"
    by (auto simp: nul_free_def MAX_VARIABLE_NAME_def)
  have k: "global_used globals_start + 64 \<le> MAX_VARIABLE"
    "global_used globals_start + 64 = 64" "MAX_VARIABLE = 64"
    by (simp_all add: globals_start_def MAX_VARIABLE_def)
  show ?thesis
    using long_names_exhaust [OF globals_start_wf n k(1) refl] unfolding k(2,3) by blast
qed

text \<open>C16: The operations of a frame are safe: from a well-formed table they all execute, and leave a
  well-formed table with the same names, operations and number of variables.\<close>

theorem global_var_ops_safe:
  assumes "globals_wf g" and "\<And>i. is_bits (junk i)"
  shows "\<exists>g'. global_var_ops junk g = Inr g' \<and> globals_wf g' \<and> global_used g' = global_used g \<and>
    (\<forall>j. g_name (global_var g' ! j) = g_name (global_var g ! j) \<and>
         g_op (global_var g' ! j) = g_op (global_var g ! j))"
  using global_var_ops_from_wf [where junk = junk, OF assms(1) _ assms(2), of "[0..<global_used g]"]
  unfolding global_var_ops_def by auto

theorem global_var_ops_safe_witness:
  "\<exists>g'. global_var_ops (\<lambda>_. Bits 0) globals_start = Inr g' \<and> globals_wf g'"
  using global_var_ops_safe [of globals_start "\<lambda>_. Bits 0"] by auto

text \<open>An operation on an integer and a double computes nothing: the variable is overwritten with
  whatever the uninitialised local held, and its type becomes a back quote, neither an integer nor
  a double.\<close>

theorem mixed_types_garbage:
  assumes "i < length (global_var g)" and "opcode (g_op (global_var g ! i)) \<noteq> 0"
    and "fetch_operand (global_var g) (g_op (global_var g ! i)) 0 = Inr (ty_int, a)"
    and "fetch_operand (global_var g) (g_op (global_var g ! i)) 1 = Inr (ty_double, b)"
  shows "\<exists>g'. global_var_op junk i g = Inr g' \<and> g_value (global_var g' ! i) = junk \<and>
    g_type (global_var g' ! i) = ch CHR ''`''"
proof -
  have "and ty_int ty_double = (0x60 :: byte)" "(0x60 :: byte) \<noteq> ty_int" "(0x60 :: byte) \<noteq> ty_double"
    by (simp_all add: types)
  then have "perform_op (global_var g) (g_op (global_var g ! i)) junk = Inr (0x60, junk)"
    using assms(3,4) by (simp add: perform_op_def by_type_def Let_def)
  then show ?thesis
    using assms(1,2) by (simp add: global_var_op_def ch_def)
qed

text \<open>A table with one variable, and an operation on it.\<close>

definition one_variable :: "byte \<Rightarrow> u64 \<Rightarrow> op_t \<Rightarrow> globals_t" where
  "one_variable t v op =
     \<lparr>global_var = (replicate MAX_VARIABLE global_zero)
        [0 := (global_init [120])\<lparr>g_value := Bits v, g_type := t, g_op := op\<rparr>],
      global_used = 1\<rparr>"

lemma one_variable_simps [simp]:
  "global_var (one_variable t v op) ! 0 = (global_init [120])\<lparr>g_value := Bits v, g_type := t, g_op := op\<rparr>"
  "global_used (one_variable t v op) = 1" "length (global_var (one_variable t v op)) = 64"
  by (simp_all add: one_variable_def MAX_VARIABLE_def)

lemma one_variable_wf: "op_wf op \<Longrightarrow> globals_wf (one_variable t v op)"
proof -
  assume op: "op_wf op"
  have "var_wf ((global_init [120])\<lparr>g_value := Bits v, g_type := t, g_op := op\<rparr>)"
    using global_init_wf [of "[120]"] op by (simp add: var_wf_def)
  moreover have "var_wf global_zero"
    by (simp add: var_wf_def global_zero_def MAX_VARIABLE_NAME_def)
  ultimately show ?thesis
    using set_update_subset_insert [of "replicate MAX_VARIABLE global_zero" 0
        "(global_init [120])\<lparr>g_value := Bits v, g_type := t, g_op := op\<rparr>"]
    by (auto simp: globals_wf_def one_variable_def MAX_VARIABLE_def)
qed

theorem mixed_types_garbage_witness:
  "\<exists>g'. global_var_op (Bits 12345) 0 (one_variable ty_int 5
      \<lparr>operand = [Addr (PVar 0), Bits 0x3FF0000000000000], operand_type = [ty_pointer, ty_double],
       opcode = ch CHR ''+''\<rparr>) = Inr g' \<and> g_value (global_var g' ! 0) = Bits 12345"
  using mixed_types_garbage [of 0 "one_variable ty_int 5
      \<lparr>operand = [Addr (PVar 0), Bits 0x3FF0000000000000], operand_type = [ty_pointer, ty_double],
       opcode = ch CHR ''+''\<rparr>" "Bits 5" "Bits 0x3FF0000000000000"]
  by (fastforce simp: fetch_operand_def types ch_def)

text \<open>A variable that counts: \<open>m x + c\<close> applied to the integer variable \<open>x\<close>.\<close>

definition counting :: "nat \<Rightarrow> u64 \<Rightarrow> op_t" where
  "counting i c =
     \<lparr>operand = [Addr (PVar i), Bits c], operand_type = [ty_pointer, ty_int], opcode = ch CHR ''+''\<rparr>"

fun frames_of_ops :: "(nat \<Rightarrow> nat \<Rightarrow> param) \<Rightarrow> nat \<Rightarrow> globals_t \<Rightarrow> globals_t res" where
  "frames_of_ops junk 0 g = Inr g"
| "frames_of_ops junk (Suc n) g = rbind (global_var_ops (junk n) g) (frames_of_ops junk n)"

text \<open>C15: A counting variable counts: after \<open>n\<close> frames it holds its first value plus \<open>n\<close> times the
  constant, in 64-bit arithmetic, whatever the operations of the other variables do.\<close>

theorem counter_counts:
  assumes "globals_wf g" and "i < global_used g" and "\<And>n j. is_bits (junk n j)"
    and "g_op (global_var g ! i) = counting i c" and "g_type (global_var g ! i) = ty_int"
    and "g_value (global_var g ! i) = Bits v"
  shows "\<exists>g'. frames_of_ops junk n g = Inr g' \<and>
    g_value (global_var g' ! i) = Bits (v + of_nat n * c) \<and> g_type (global_var g' ! i) = ty_int"
  using assms(1,2,4-6)
proof (induction n arbitrary: g v)
  case 0
  then show ?case by simp
next
  case (Suc n)
  have run: "[0..<global_used g] = [0..<i] @ i # [Suc i..<global_used g]"
    using Suc.prems(2) upt_add_eq_append [of 0 i "global_used g - i"] by (simp add: upt_conv_Cons)
  obtain g1 where g1: "global_var_ops_from (junk n) [0..<i] g = Inr g1" "globals_wf g1"
    "global_used g1 = global_used g"
    "\<forall>j. g_op (global_var g1 ! j) = g_op (global_var g ! j)"
    "\<forall>j. j \<notin> set [0..<i] \<longrightarrow> global_var g1 ! j = global_var g ! j"
    using global_var_ops_from_wf [where junk = "junk n", OF Suc.prems(1) _ assms(3), of "[0..<i]"]
      Suc.prems(2) by auto
  have gi: "global_var g1 ! i = global_var g ! i" using g1(5) by simp
  have len: "i < length (global_var g1)" "i < MAX_VARIABLE"
    using g1(2,3) Suc.prems(2) by (simp_all add: globals_wf_def)
  let ?v = "(global_var g ! i)\<lparr>g_value := Bits (v + c), g_type := ty_int\<rparr>"
  let ?g2 = "g1\<lparr>global_var := (global_var g1)[i := ?v]\<rparr>"
  have "perform_op (global_var g1) (counting i c) (junk n i) = Inr (ty_int, Bits (v + c))"
    using len Suc.prems(4,5) gi
    by (simp add: perform_op_def fetch_operand_def counting_def by_type_def Let_def
        perform_op_int_def types)
  then have op: "global_var_op (junk n i) i g1 = Inr ?g2"
    using gi Suc.prems(3) by (simp add: global_var_op_def counting_def ch_def)
  obtain g2' where g2': "global_var_op (junk n i) i g1 = Inr g2'" "globals_wf g2'" "global_used g2' = global_used g1"
    using global_var_op_wf [of g1 i "junk n i"] g1(2,3) Suc.prems(2) assms(3) by auto
  then have g2: "globals_wf ?g2" using op by simp
  obtain g3 where g3: "global_var_ops_from (junk n) [Suc i..<global_used g] ?g2 = Inr g3" "globals_wf g3"
    "global_used g3 = global_used ?g2"
    "\<forall>j. g_op (global_var g3 ! j) = g_op (global_var ?g2 ! j)"
    "\<forall>j. j \<notin> set [Suc i..<global_used g] \<longrightarrow> global_var g3 ! j = global_var ?g2 ! j"
    using global_var_ops_from_wf [where junk = "junk n", OF g2 _ assms(3), of "[Suc i..<global_used g]"]
      g1(3) by auto
  have i3: "global_var g3 ! i = ?v" using g3(5) len by simp
  have append: "global_var_ops_from (junk n) (xs @ ys) h =
      rbind (global_var_ops_from (junk n) xs h) (global_var_ops_from (junk n) ys)" for xs ys h
  proof (induction xs arbitrary: h)
    case (Cons x xs)
    then show ?case by (cases "global_var_op (junk n x) x h") auto
  qed simp
  have ops: "global_var_ops (junk n) g = Inr g3"
    unfolding global_var_ops_def run append using g1(1) op g3(1) by simp
  obtain g' where "frames_of_ops junk n g3 = Inr g'"
    "g_value (global_var g' ! i) = Bits (v + c + of_nat n * c)" "g_type (global_var g' ! i) = ty_int"
    using Suc.IH [of g3 "v + c"] g3(2,3) g1(3) i3 Suc.prems(2,3) by auto
  then show ?case using ops by (simp add: algebra_simps)
qed

theorem counter_counts_witness:
  "\<exists>g'. frames_of_ops (\<lambda>_ _. Bits 0) 10 (one_variable ty_int 5 (counting 0 3)) = Inr g' \<and>
    g_value (global_var g' ! 0) = Bits 35"
proof -
  have "op_wf (counting 0 3)"
    by (auto simp: op_wf_def counting_def operand_wf_def types MAX_VARIABLE_def less_2_cases_iff)
  then have "globals_wf (one_variable ty_int 5 (counting 0 3))" by (rule one_variable_wf)
  from counter_counts [OF this, of 0 "\<lambda>_ _. Bits 0" 3 5 10]
  show ?thesis by auto
qed

end
