(* ===== verification/CMacro.thy ===== *)
theory CMacro
  imports Prelude
begin

unbundle bit_operations_syntax

text \<open>
  The function-like macros of \<^verbatim>\<open>macro.h\<close>. A macro has no types of its own: each is
  polymorphic here and is used at the type its arguments are converted to.
\<close>

definition c_max :: "'a::linorder \<Rightarrow> 'a \<Rightarrow> 'a" where
  "c_max a b = (if a > b then a else b)"

definition c_min :: "'a::linorder \<Rightarrow> 'a \<Rightarrow> 'a" where
  "c_min a b = (if a < b then a else b)"

definition c_clamp :: "'a::linorder \<Rightarrow> 'a \<Rightarrow> 'a \<Rightarrow> 'a" where
  "c_clamp d lo hi = (if d < lo then lo else if d > hi then hi else d)"

text \<open>\<open>FREE\<close> hands the block back and clears the pointer: the block freed and the new pointer.\<close>

definition c_free :: "'p option \<Rightarrow> 'p list \<times> 'p option" where
  "c_free a = ((case a of None \<Rightarrow> [] | Some p \<Rightarrow> [p]), None)"

definition flagged :: "'n::len word \<Rightarrow> 'n word \<Rightarrow> bool" where
  "flagged test_bits bit_set \<longleftrightarrow> test_bits AND bit_set \<noteq> 0"

definition unflagged :: "'n::len word \<Rightarrow> 'n word \<Rightarrow> bool" where
  "unflagged test_bits bit_set \<longleftrightarrow> bit_set XOR (test_bits AND bit_set) \<noteq> 0"

text \<open>\<open>NULLTERM\<close> on an array, given by its bytes.\<close>

definition nullterm :: "byte list \<Rightarrow> byte list" where
  "nullterm arr = arr[length arr - 1 := 0]"

lemma c_max_eq [simp]: "c_max a b = max a b"
  by (auto simp: c_max_def)

lemma c_min_eq [simp]: "c_min a b = min a b"
  by (auto simp: c_min_def)

lemma c_clamp_range: "lo \<le> hi \<Longrightarrow> lo \<le> c_clamp d lo hi \<and> c_clamp d lo hi \<le> hi"
  by (auto simp: c_clamp_def)

lemma flagged_zero [simp]: "\<not> flagged 0 b" "\<not> flagged a 0"
  by (simp_all add: flagged_def)

lemma flagged_or: "flagged (a OR b) c \<longleftrightarrow> flagged a c \<or> flagged b c"
  by (simp add: flagged_def bit_eq_iff bit_simps) blast

text \<open>A set of bits is unflagged when not all of it is set.\<close>

lemma unflagged_iff: "unflagged t s \<longleftrightarrow> t AND s \<noteq> s"
  by (auto simp: unflagged_def bit_eq_iff bit_simps)

lemma length_nullterm [simp]: "length (nullterm arr) = length arr"
  by (simp add: nullterm_def)

end
