(* ===== verification/Dlfn.thy ===== *)
theory Dlfn
  imports Functor CMacro "HOL-Library.Multiset"
begin

unbundle bit_operations_syntax

text \<open>
  \<^verbatim>\<open>dlfn.c\<close>: the functions and objects that a loaded shared object exports. The dynamic linker's
  answers and the views of the loaded image as ELF structures are arguments; addresses are 64-bit
  numbers.
\<close>

section \<open>The loaded image\<close>

record ehdr =
  e_phoff :: u64
  e_phentsize :: u16
  e_phnum :: u16

record phdr =
  p_type :: u32
  p_vaddr :: u64

record dyn =
  d_tag :: u64
  d_ptr :: u64

record sym =
  st_name :: u32
  st_info :: byte
  st_value :: u64
  st_size :: u64

text \<open>What a pointer of each type sees at an address.\<close>

record image =
  ehdr_at :: "u64 \<Rightarrow> ehdr"
  phdr_at :: "u64 \<Rightarrow> phdr"
  dyn_at :: "u64 \<Rightarrow> dyn"
  sym_at :: "u64 \<Rightarrow> sym"
  str_at :: "u64 \<Rightarrow> byte list"

definition PT_DYNAMIC :: u32 where "PT_DYNAMIC = 2"
definition DT_STRTAB :: u64 where "DT_STRTAB = 5"
definition DT_SYMTAB :: u64 where "DT_SYMTAB = 6"
definition STT_OBJECT :: byte where "STT_OBJECT = 1"
definition STT_FUNC :: byte where "STT_FUNC = 2"
definition STB_GLOBAL :: byte where "STB_GLOBAL = 1"
definition sizeof_sym :: nat where "sizeof_sym = 24"
definition sizeof_dyn :: u64 where "sizeof_dyn = 16"

definition st_type :: "sym \<Rightarrow> byte" where
  "st_type s = st_info s AND 15"

definition st_bind :: "sym \<Rightarrow> byte" where
  "st_bind s = drop_bit 4 (st_info s)"

section \<open>State\<close>

definition MAX_SYMBOLS :: nat where
  "MAX_SYMBOLS = 32"

definition MAX_PATH :: nat where
  "MAX_PATH = 128"

record function_t =
  f_name :: "byte list option"
  fnctor :: functor_t

record object_t =
  o_name :: "byte list option"
  address :: u64
  bytes :: u64

definition function_zero :: function_t where
  "function_zero = \<lparr>f_name = None, fnctor = functor_zero\<rparr>"

definition object_zero :: object_t where
  "object_zero = \<lparr>o_name = None, address = 0, bytes = 0\<rparr>"

record dlfn_t =
  dlname :: "byte list"
  dlhandle :: "u64 option"
  dlfn_function :: "function_t list"
  dlfn_used_function :: nat
  dlfn_object :: "object_t list"
  dlfn_used_object :: nat

definition dlfn_start :: dlfn_t where
  "dlfn_start =
     \<lparr>dlname = replicate MAX_PATH 0, dlhandle = None,
      dlfn_function = replicate MAX_SYMBOLS function_zero, dlfn_used_function = 0,
      dlfn_object = replicate MAX_SYMBOLS object_zero, dlfn_used_object = 0\<rparr>"

section \<open>Order and lookup\<close>

definition call_address :: "function_t \<Rightarrow> u64" where
  "call_address f = (case call (fnctor f) of Some (Loaded a) \<Rightarrow> a | _ \<Rightarrow> 0)"

definition symbol_order :: "function_t \<Rightarrow> function_t \<Rightarrow> int" where
  "symbol_order lhv rhv =
     (let lhfn = call_address lhv; rhfn = call_address rhv
      in if lhfn < rhfn then - 1 else if lhfn > rhfn then 1 else 0)"

definition object_order :: "object_t \<Rightarrow> object_t \<Rightarrow> int" where
  "object_order lhv rhv =
     (if address lhv < address rhv then - 1 else if address lhv > address rhv then 1 else 0)"

text \<open>\<open>qsort\<close> with a comparison function. Elements that compare equal may come out in any order: \<open>ties\<close> is
  the arrangement of the array that decides it.\<close>

fun insort_by :: "('a \<Rightarrow> 'a \<Rightarrow> int) \<Rightarrow> 'a \<Rightarrow> 'a list \<Rightarrow> 'a list" where
  "insort_by cmp x [] = [x]"
| "insort_by cmp x (y # ys) = (if cmp x y \<le> 0 then x # y # ys else y # insort_by cmp x ys)"

definition qsort :: "('a list \<Rightarrow> 'a list) \<Rightarrow> ('a \<Rightarrow> 'a \<Rightarrow> int) \<Rightarrow> 'a list \<Rightarrow> 'a list" where
  "qsort ties cmp xs = foldr (insort_by cmp) (ties xs) []"

record sorter =
  q_functions :: "function_t list \<Rightarrow> function_t list"
  q_objects :: "object_t list \<Rightarrow> object_t list"

text \<open>What is documented of \<open>qsort\<close>: nothing is lost or made up.\<close>

definition sorter_ok :: "sorter \<Rightarrow> bool" where
  "sorter_ok q \<longleftrightarrow> (\<forall>xs. mset (q_functions q xs) = mset xs) \<and> (\<forall>xs. mset (q_objects q xs) = mset xs)"

definition stable_sorter :: sorter where
  "stable_sorter = \<lparr>q_functions = \<lambda>xs. xs, q_objects = \<lambda>xs. xs\<rparr>"

lemma stable_sorter [simp]: "sorter_ok stable_sorter" "q_functions stable_sorter xs = xs" "q_objects stable_sorter ys = ys"
  by (simp_all add: sorter_ok_def stable_sorter_def)

lemma sorter_length:
  assumes "sorter_ok q"
  shows "length (q_functions q xs) = length xs" and "length (q_objects q ys) = length ys"
  using assms by (metis mset_eq_length sorter_ok_def)+

definition sort_functions :: "sorter \<Rightarrow> dlfn_t \<Rightarrow> dlfn_t" where
  "sort_functions q d =
     d\<lparr>dlfn_function := qsort (q_functions q) symbol_order (take (dlfn_used_function d) (dlfn_function d)) @
        drop (dlfn_used_function d) (dlfn_function d)\<rparr>"

definition sort_objects :: "sorter \<Rightarrow> dlfn_t \<Rightarrow> dlfn_t" where
  "sort_objects q d =
     d\<lparr>dlfn_object := qsort (q_objects q) object_order (take (dlfn_used_object d) (dlfn_object d)) @
        drop (dlfn_used_object d) (dlfn_object d)\<rparr>"

text \<open>The functions that \<open>dlfn_call\<close> calls.\<close>

definition dlfn_call :: "byte list \<Rightarrow> dlfn_t \<Rightarrow> functor_t list" where
  "dlfn_call name d =
     map (\<lambda>i. fnctor (dlfn_function d ! i))
       (filter (\<lambda>i. case f_name (dlfn_function d ! i) of
                 None \<Rightarrow> False | Some n \<Rightarrow> strcmp_eq name n) [0..<dlfn_used_function d])"

definition dlfn_get_symbol :: "byte list \<Rightarrow> dlfn_t \<Rightarrow> nat option" where
  "dlfn_get_symbol name d =
     find (\<lambda>i. case f_name (dlfn_function d ! i) of
             None \<Rightarrow> False | Some n \<Rightarrow> strcmp_eq name n) [0..<dlfn_used_function d]"

definition dlfn_get_object :: "byte list \<Rightarrow> dlfn_t \<Rightarrow> nat option" where
  "dlfn_get_object name d =
     find (\<lambda>i. case o_name (dlfn_object d ! i) of
             None \<Rightarrow> False | Some n \<Rightarrow> strcmp_eq name n) [0..<dlfn_used_object d]"

section \<open>Parsing\<close>

text \<open>The two loops of \<open>parse_symtab\<close>, with the symbols left to look at.\<close>

fun parse_functions :: "image \<Rightarrow> u64 \<Rightarrow> u64 \<Rightarrow> nat \<Rightarrow> u64 \<Rightarrow> dlfn_t \<Rightarrow> dlfn_t" where
  "parse_functions img addr strtab 0 iter d = d"
| "parse_functions img addr strtab (Suc k) iter d =
     (let s = sym_at img iter; next_sym = iter + of_nat sizeof_sym in
      if st_type s \<noteq> STT_FUNC \<or> st_bind s \<noteq> STB_GLOBAL \<or> st_size s = 0
      then parse_functions img addr strtab k next_sym d
      else if dlfn_used_function d \<ge> MAX_SYMBOLS then d
      else
        let f = \<lparr>f_name = Some (str_at img (strtab + ucast (st_name s))),
                 fnctor = functor_init (Some (Loaded (addr + st_value s)))\<rparr>
        in parse_functions img addr strtab k next_sym
             (d\<lparr>dlfn_function := (dlfn_function d)[dlfn_used_function d := f],
                dlfn_used_function := dlfn_used_function d + 1\<rparr>))"

fun parse_objects :: "image \<Rightarrow> u64 \<Rightarrow> u64 \<Rightarrow> nat \<Rightarrow> u64 \<Rightarrow> dlfn_t \<Rightarrow> dlfn_t" where
  "parse_objects img addr strtab 0 iter d = d"
| "parse_objects img addr strtab (Suc k) iter d =
     (let s = sym_at img iter; next_sym = iter + of_nat sizeof_sym in
      if st_type s \<noteq> STT_OBJECT \<or> st_bind s \<noteq> STB_GLOBAL \<or> st_size s = 0
      then parse_objects img addr strtab k next_sym d
      else if dlfn_used_object d \<ge> MAX_SYMBOLS then d
      else
        let b = \<lparr>o_name = Some (str_at img (strtab + ucast (st_name s))),
                 address = addr + st_value s, bytes = st_size s\<rparr>
        in parse_objects img addr strtab k next_sym
             (d\<lparr>dlfn_object := (dlfn_object d)[dlfn_used_object d := b],
                dlfn_used_object := dlfn_used_object d + 1\<rparr>))"

text \<open>How many symbols start below the string table.\<close>

definition symbol_count :: "u64 \<Rightarrow> u64 \<Rightarrow> nat" where
  "symbol_count symtab strtab =
     (unat strtab - unat symtab + (sizeof_sym - 1)) div sizeof_sym"

definition parse_symtab :: "image \<Rightarrow> u64 \<Rightarrow> u64 \<Rightarrow> u64 \<Rightarrow> dlfn_t \<Rightarrow> dlfn_t" where
  "parse_symtab img addr symtab strtab d =
     parse_objects img addr strtab (symbol_count symtab strtab) symtab
       (parse_functions img addr strtab (symbol_count symtab strtab) symtab d)"

text \<open>The entries of the dynamic section up to the one with tag 0; \<open>fuel\<close> bounds their number.\<close>

fun dynamic_tables :: "nat \<Rightarrow> image \<Rightarrow> u64 \<Rightarrow> u64 \<times> u64 \<Rightarrow> (u64 \<times> u64) res" where
  "dynamic_tables 0 img dyn tabs = Inl Diverge"
| "dynamic_tables (Suc fuel) img dyn (strtab, symtab) =
     (let e = dyn_at img dyn in
      if d_tag e = 0 then Inr (strtab, symtab)
      else dynamic_tables fuel img (dyn + sizeof_dyn)
             (if d_tag e = DT_STRTAB then (d_ptr e, symtab)
              else if d_tag e = DT_SYMTAB then (strtab, d_ptr e)
              else (strtab, symtab)))"

definition parse_dynamic_header :: "nat \<Rightarrow> image \<Rightarrow> u64 \<Rightarrow> phdr \<Rightarrow> dlfn_t \<Rightarrow> dlfn_t res" where
  "parse_dynamic_header fuel img base ph d =
     rbind (dynamic_tables fuel img (base + p_vaddr ph) (0, 0)) (\<lambda>(strtab, symtab).
     Inr (if symtab \<noteq> 0 then parse_symtab img base symtab strtab d else d))"

text \<open>The last program header of type \<open>PT_DYNAMIC\<close>.\<close>

fun dynamic_header :: "image \<Rightarrow> u64 \<Rightarrow> nat \<Rightarrow> u64 \<Rightarrow> phdr option \<Rightarrow> phdr option" where
  "dynamic_header img entsize 0 ph dynHeader = dynHeader"
| "dynamic_header img entsize (Suc n) ph dynHeader =
     dynamic_header img entsize n (ph + entsize)
       (if p_type (phdr_at img ph) = PT_DYNAMIC then Some (phdr_at img ph) else dynHeader)"

definition parse_elf_header :: "nat \<Rightarrow> image \<Rightarrow> u64 \<Rightarrow> dlfn_t \<Rightarrow> dlfn_t res" where
  "parse_elf_header fuel img base d =
     (let h = ehdr_at img base in
      case dynamic_header img (ucast (e_phentsize h)) (unat (e_phnum h)) (base + e_phoff h) None of
        None \<Rightarrow> Inr d
      | Some ph \<Rightarrow> parse_dynamic_header fuel img base ph d)"

section \<open>Opening and closing\<close>

text \<open>
  \<open>dlopen path\<close> is the handle, and \<open>link_map h\<close> the linker's list of loaded objects, each with
  its name and base address; \<open>None\<close> when the call fails.
\<close>

fun parse_link_map :: "nat \<Rightarrow> image \<Rightarrow> (byte list \<times> u64) list \<Rightarrow> dlfn_t \<Rightarrow> dlfn_t res" where
  "parse_link_map fuel img [] d = Inr d"
| "parse_link_map fuel img ((l_name, l_addr) # ls) d =
     rbind (if strstr l_name (cstr (dlname d)) then parse_elf_header fuel img l_addr d else Inr d)
       (parse_link_map fuel img ls)"

definition dlfn_open ::
  "sorter \<Rightarrow> nat \<Rightarrow> image \<Rightarrow> (byte list \<Rightarrow> u64 option) \<Rightarrow> (u64 \<Rightarrow> (byte list \<times> u64) list option) \<Rightarrow> dlfn_t \<Rightarrow>
   (bool \<times> dlfn_t) res"
where
  "dlfn_open q fuel img dlopen link_map d =
     (let d1 = d\<lparr>dlhandle := dlopen (cstr (dlname d))\<rparr> in
      case dlhandle d1 of
        None \<Rightarrow> Inr (False, d1)
      | Some h \<Rightarrow>
          (case link_map h of
             None \<Rightarrow> Inr (False, d1)
           | Some dllm \<Rightarrow>
               rbind (parse_link_map fuel img dllm d1) (\<lambda>d2.
               Inr (True, sort_objects q (sort_functions q d2)))))"

definition dlfn_close :: "dlfn_t \<Rightarrow> bool \<times> dlfn_t" where
  "dlfn_close d =
     (if dlhandle d = None then (False, d)
      else (True, d\<lparr>dlfn_function := replicate MAX_SYMBOLS function_zero, dlfn_used_function := 0,
                     dlfn_object := replicate MAX_SYMBOLS object_zero, dlfn_used_object := 0,
                     dlhandle := None\<rparr>))"

definition dlfn_init :: "byte list \<Rightarrow> dlfn_t \<Rightarrow> bool \<times> dlfn_t" where
  "dlfn_init filepath d =
     (if \<not> strstr filepath (str ''.so'') then (False, d)
      else (True, d\<lparr>dlname := nullterm (strncpy filepath MAX_PATH)\<rparr>))"

definition dlfn_shutdown :: "dlfn_t \<Rightarrow> dlfn_t" where
  "dlfn_shutdown d = (let d1 = snd (dlfn_close d) in d1\<lparr>dlname := (dlname d1)[0 := 0]\<rparr>)"

section \<open>Sorting\<close>

text \<open>A comparison function that compares keys: \<open>qsort\<close> then sorts by the key.\<close>

locale comparator =
  fixes cmp :: "'a \<Rightarrow> 'a \<Rightarrow> int" and key :: "'a \<Rightarrow> 'k::linorder"
  assumes cmp_key: "cmp x y \<le> 0 \<longleftrightarrow> key x \<le> key y"
begin

lemma insort_by_key: "insort_by cmp x ys = insort_key key x ys"
  by (induction ys) (auto simp: cmp_key)

lemma qsort_by_key: "qsort ties cmp xs = sort_key key (ties xs)"
  by (simp add: qsort_def sort_key_def insort_by_key [abs_def])

lemma mset_qsort: "mset (ties xs) = mset xs \<Longrightarrow> mset (qsort ties cmp xs) = mset xs"
  by (simp add: qsort_by_key)

lemma qsort_ordered: "i \<le> j \<Longrightarrow> j < length (ties xs) \<Longrightarrow> key (qsort ties cmp xs ! i) \<le> key (qsort ties cmp xs ! j)"
  using sorted_nth_mono [of "map key (qsort ties cmp xs)" i j] by (simp add: qsort_by_key)

text \<open>With different keys the arrangement does not matter.\<close>

lemma qsort_unique:
  assumes "mset (ties xs) = mset xs" and "inj_on key (set xs)"
  shows "qsort ties cmp xs = sort_key key xs"
proof (unfold qsort_by_key, rule properties_for_sort_key [symmetric])
  show "mset (sort_key key (ties xs)) = mset xs" using assms(1) by simp
  show "sorted (map key (sort_key key (ties xs)))" by simp
  show "filter (\<lambda>y. key x = key y) (sort_key key (ties xs)) = filter (\<lambda>y. key x = key y) xs"
    if "x \<in> set (sort_key key (ties xs))" for x
  proof -
    have x: "x \<in> set xs" using that assms(1) by (metis mset_eq_setD set_sort)
    have same: "filter (\<lambda>y. key x = key y) ys = replicate (count (mset ys) x) x" if "set ys \<subseteq> set xs" for ys
      using that assms(2) x by (induction ys) (auto simp: inj_on_def)
    have "set (sort_key key (ties xs)) = set xs" using assms(1) by (metis mset_eq_setD set_sort)
    then show ?thesis using same [of xs] same [of "sort_key key (ties xs)"] assms(1) by simp
  qed
qed

end

interpretation fn_order: comparator symbol_order call_address
  by unfold_locales (auto simp: symbol_order_def Let_def)

interpretation obj_order: comparator object_order address
  by unfold_locales (auto simp: object_order_def)

section \<open>What is parsed\<close>

definition loaded_functions :: "dlfn_t \<Rightarrow> function_t list" where
  "loaded_functions d = take (dlfn_used_function d) (dlfn_function d)"

definition loaded_objects :: "dlfn_t \<Rightarrow> object_t list" where
  "loaded_objects d = take (dlfn_used_object d) (dlfn_object d)"

definition dlfn_wf :: "dlfn_t \<Rightarrow> bool" where
  "dlfn_wf d \<longleftrightarrow>
     length (dlfn_function d) = MAX_SYMBOLS \<and> dlfn_used_function d \<le> MAX_SYMBOLS \<and>
     length (dlfn_object d) = MAX_SYMBOLS \<and> dlfn_used_object d \<le> MAX_SYMBOLS \<and>
     length (dlname d) = MAX_PATH"

definition symbols :: "image \<Rightarrow> nat \<Rightarrow> u64 \<Rightarrow> sym list" where
  "symbols img k iter = map (\<lambda>j. sym_at img (iter + of_nat (sizeof_sym * j))) [0..<k]"

definition exported :: "byte \<Rightarrow> sym \<Rightarrow> bool" where
  "exported t s \<longleftrightarrow> st_type s = t \<and> st_bind s = STB_GLOBAL \<and> st_size s \<noteq> 0"

definition function_of :: "image \<Rightarrow> u64 \<Rightarrow> u64 \<Rightarrow> sym \<Rightarrow> function_t" where
  "function_of img addr strtab s =
     \<lparr>f_name = Some (str_at img (strtab + ucast (st_name s))),
      fnctor = functor_init (Some (Loaded (addr + st_value s)))\<rparr>"

definition object_of :: "image \<Rightarrow> u64 \<Rightarrow> u64 \<Rightarrow> sym \<Rightarrow> object_t" where
  "object_of img addr strtab s =
     \<lparr>o_name = Some (str_at img (strtab + ucast (st_name s))),
      address = addr + st_value s, bytes = st_size s\<rparr>"

lemma symbols_Suc [simp]:
  "symbols img 0 iter = []"
  "symbols img (Suc k) iter = sym_at img iter # symbols img k (iter + of_nat sizeof_sym)"
  by (simp_all add: symbols_def upt_conv_Cons map_Suc_upt [symmetric] algebra_simps
      del: upt_Suc)

lemma functions_snoc:
  "dlfn_used_function d < length (dlfn_function d) \<Longrightarrow>
   loaded_functions (d\<lparr>dlfn_function := (dlfn_function d)[dlfn_used_function d := f],
                dlfn_used_function := Suc (dlfn_used_function d)\<rparr>) = loaded_functions d @ [f]"
  by (simp add: loaded_functions_def take_Suc_conv_app_nth)

lemma objects_snoc:
  "dlfn_used_object d < length (dlfn_object d) \<Longrightarrow>
   loaded_objects (d\<lparr>dlfn_object := (dlfn_object d)[dlfn_used_object d := b],
              dlfn_used_object := Suc (dlfn_used_object d)\<rparr>) = loaded_objects d @ [b]"
  by (simp add: loaded_objects_def take_Suc_conv_app_nth)

lemma parse_functions_spec:
  "dlfn_wf d \<Longrightarrow>
   \<exists>d'. parse_functions img addr strtab k iter d = d' \<and> dlfn_wf d' \<and>
     loaded_functions d' = loaded_functions d @ take (MAX_SYMBOLS - dlfn_used_function d)
       (map (function_of img addr strtab) (filter (exported STT_FUNC) (symbols img k iter))) \<and>
     loaded_objects d' = loaded_objects d \<and> dlname d' = dlname d \<and> dlhandle d' = dlhandle d \<and>
     dlfn_used_object d' = dlfn_used_object d"
proof (induction k arbitrary: iter d)
  case 0
  then show ?case by simp
next
  case (Suc k)
  let ?s = "sym_at img iter"
  show ?case
  proof (cases "exported STT_FUNC ?s")
    case False
    then show ?thesis using Suc by (auto simp: exported_def Let_def)
  next
    case ex: True
    show ?thesis
    proof (cases "dlfn_used_function d < MAX_SYMBOLS")
      case False
      then show ?thesis using ex Suc.prems by (auto simp: exported_def Let_def)
    next
      case True
      define d1 where "d1 = d\<lparr>dlfn_function :=
          (dlfn_function d)[dlfn_used_function d := function_of img addr strtab ?s],
          dlfn_used_function := Suc (dlfn_used_function d)\<rparr>"
      have d1: "dlfn_wf d1" "loaded_functions d1 = loaded_functions d @ [function_of img addr strtab ?s]"
        "loaded_objects d1 = loaded_objects d"
        using Suc.prems True functions_snoc [of d "function_of img addr strtab ?s"]
        by (simp_all add: d1_def dlfn_wf_def loaded_objects_def)
      have "parse_functions img addr strtab (Suc k) iter d =
          parse_functions img addr strtab k (iter + of_nat sizeof_sym) d1"
        using ex True by (simp add: exported_def Let_def d1_def function_of_def)
      moreover have "MAX_SYMBOLS - dlfn_used_function d = Suc (MAX_SYMBOLS - dlfn_used_function d1)"
        using True by (simp add: d1_def)
      ultimately show ?thesis
        using Suc.IH [OF d1(1), of "iter + of_nat sizeof_sym"] d1(2,3) ex by (auto simp: d1_def)
    qed
  qed
qed

lemma parse_objects_spec:
  "dlfn_wf d \<Longrightarrow>
   \<exists>d'. parse_objects img addr strtab k iter d = d' \<and> dlfn_wf d' \<and>
     loaded_objects d' = loaded_objects d @ take (MAX_SYMBOLS - dlfn_used_object d)
       (map (object_of img addr strtab) (filter (exported STT_OBJECT) (symbols img k iter))) \<and>
     loaded_functions d' = loaded_functions d \<and> dlname d' = dlname d \<and> dlhandle d' = dlhandle d"
proof (induction k arbitrary: iter d)
  case 0
  then show ?case by simp
next
  case (Suc k)
  let ?s = "sym_at img iter"
  show ?case
  proof (cases "exported STT_OBJECT ?s")
    case False
    then show ?thesis using Suc by (auto simp: exported_def Let_def)
  next
    case ex: True
    show ?thesis
    proof (cases "dlfn_used_object d < MAX_SYMBOLS")
      case False
      then show ?thesis using ex Suc.prems by (auto simp: exported_def Let_def)
    next
      case True
      define d1 where "d1 = d\<lparr>dlfn_object :=
          (dlfn_object d)[dlfn_used_object d := object_of img addr strtab ?s],
          dlfn_used_object := Suc (dlfn_used_object d)\<rparr>"
      have d1: "dlfn_wf d1" "loaded_objects d1 = loaded_objects d @ [object_of img addr strtab ?s]"
        "loaded_functions d1 = loaded_functions d"
        using Suc.prems True objects_snoc [of d "object_of img addr strtab ?s"]
        by (simp_all add: d1_def dlfn_wf_def loaded_functions_def)
      have "parse_objects img addr strtab (Suc k) iter d =
          parse_objects img addr strtab k (iter + of_nat sizeof_sym) d1"
        using ex True by (simp add: exported_def Let_def d1_def object_of_def)
      moreover have "MAX_SYMBOLS - dlfn_used_object d = Suc (MAX_SYMBOLS - dlfn_used_object d1)"
        using True by (simp add: d1_def)
      ultimately show ?thesis
        using Suc.IH [OF d1(1), of "iter + of_nat sizeof_sym"] d1(2,3) ex by (auto simp: d1_def)
    qed
  qed
qed

section \<open>Properties\<close>

text \<open>Unloaded: nothing is open and the tables are empty.\<close>

definition dlfn_closed :: "dlfn_t \<Rightarrow> bool" where
  "dlfn_closed d \<longleftrightarrow>
     dlfn_wf d \<and> dlhandle d = None \<and> dlfn_used_function d = 0 \<and> dlfn_used_object d = 0 \<and>
     dlfn_function d = replicate MAX_SYMBOLS function_zero \<and>
     dlfn_object d = replicate MAX_SYMBOLS object_zero"

lemma dlfn_start_closed [simp]: "dlfn_closed dlfn_start"
  by (simp add: dlfn_closed_def dlfn_wf_def dlfn_start_def)

lemma parse_symtab_spec:
  assumes "dlfn_wf d"
  shows "\<exists>d'. parse_symtab img addr symtab strtab d = d' \<and> dlfn_wf d' \<and>
     loaded_functions d' = loaded_functions d @ take (MAX_SYMBOLS - dlfn_used_function d)
       (map (function_of img addr strtab)
         (filter (exported STT_FUNC) (symbols img (symbol_count symtab strtab) symtab))) \<and>
     loaded_objects d' = loaded_objects d @ take (MAX_SYMBOLS - dlfn_used_object d)
       (map (object_of img addr strtab)
         (filter (exported STT_OBJECT) (symbols img (symbol_count symtab strtab) symtab))) \<and>
     dlname d' = dlname d \<and> dlhandle d' = dlhandle d"
proof -
  let ?k = "symbol_count symtab strtab"
  let ?d1 = "parse_functions img addr strtab ?k symtab d"
  note 1 = parse_functions_spec [OF assms, of img addr strtab ?k symtab]
  then have "dlfn_wf ?d1" by blast
  from parse_objects_spec [OF this, of img addr strtab ?k symtab] 1 show ?thesis
    by (auto simp: parse_symtab_def)
qed

lemma sorted_tables:
  assumes "dlfn_wf d" and "sorter_ok q" and "d' = sort_objects q (sort_functions q d)"
  shows "dlfn_wf d'" and "loaded_functions d' = sort_key call_address (q_functions q (loaded_functions d))"
    and "loaded_objects d' = sort_key address (q_objects q (loaded_objects d))"
    and "dlname d' = dlname d" and "dlhandle d' = dlhandle d"
proof -
  have len: "length (dlfn_function d) = MAX_SYMBOLS" "dlfn_used_function d \<le> MAX_SYMBOLS"
    "length (dlfn_object d) = MAX_SYMBOLS" "dlfn_used_object d \<le> MAX_SYMBOLS" "length (dlname d) = MAX_PATH"
    using assms(1) by (simp_all add: dlfn_wf_def)
  note defs = sort_functions_def sort_objects_def loaded_functions_def loaded_objects_def
    fn_order.qsort_by_key obj_order.qsort_by_key sorter_length [OF assms(2)]
  show "dlfn_wf d'" using len by (simp add: assms(3) dlfn_wf_def defs min_absorb2)
  show "loaded_functions d' = sort_key call_address (q_functions q (loaded_functions d))"
    and "loaded_objects d' = sort_key address (q_objects q (loaded_objects d))"
    using len by (simp_all add: assms(3) defs min_absorb2)
  show "dlname d' = dlname d" and "dlhandle d' = dlhandle d"
    by (simp_all add: assms(3) sort_functions_def sort_objects_def)
qed

lemma parse_link_map_skip:
  "\<forall>(n, a) \<in> set ls. \<not> strstr n (cstr (dlname d)) \<Longrightarrow> parse_link_map fuel img ls d = Inr d"
  by (induction ls) auto

lemma parse_link_map_append:
  "parse_link_map fuel img (xs @ ys) d = rbind (parse_link_map fuel img xs d) (parse_link_map fuel img ys)"
proof (induction xs arbitrary: d)
  case (Cons x xs)
  obtain n a where "x = (n, a)" by (cases x)
  then show ?case
    using Cons by (cases "parse_elf_header fuel img a d") auto
qed simp

text \<open>C11: Opening a shared object, from the unloaded state: the function table holds exactly the
  object's exported functions of non-zero size, at most 32 of them, in the order of their addresses,
  those at the same address in whatever order \<open>qsort\<close> leaves them; likewise the data objects.\<close>

theorem dlfn_open_exports:
  assumes "dlfn_closed d" and "dlopen (cstr (dlname d)) = Some h"
    and "link_map h = Some (pre @ (l_name, base) # post)"
    and "strstr l_name (cstr (dlname d))"
    and "\<forall>(n, a) \<in> set (pre @ post). \<not> strstr n (cstr (dlname d))"
    and "dynamic_header img (ucast (e_phentsize (ehdr_at img base))) (unat (e_phnum (ehdr_at img base)))
          (base + e_phoff (ehdr_at img base)) None = Some ph"
    and "dynamic_tables fuel img (base + p_vaddr ph) (0, 0) = Inr (strtab, symtab)" and "symtab \<noteq> 0"
    and "syms = symbols img (symbol_count symtab strtab) symtab" and "sorter_ok q"
  shows "\<exists>d'. dlfn_open q fuel img dlopen link_map d = Inr (True, d') \<and>
    loaded_functions d' = sort_key call_address (q_functions q
      (take MAX_SYMBOLS (map (function_of img base strtab) (filter (exported STT_FUNC) syms)))) \<and>
    loaded_objects d' = sort_key address (q_objects q
      (take MAX_SYMBOLS (map (object_of img base strtab) (filter (exported STT_OBJECT) syms)))) \<and>
    dlfn_wf d' \<and> dlhandle d' = Some h"
proof -
  define d1 where "d1 = d\<lparr>dlhandle := Some h\<rparr>"
  have d1: "dlfn_wf d1" "loaded_functions d1 = []" "loaded_objects d1 = []"
    "dlfn_used_function d1 = 0" "dlfn_used_object d1 = 0" "dlname d1 = dlname d" "dlhandle d1 = Some h"
    using assms(1)
    by (simp_all add: d1_def dlfn_closed_def dlfn_wf_def loaded_functions_def loaded_objects_def)
  define d2 where "d2 = parse_symtab img base symtab strtab d1"
  have d2: "dlfn_wf d2" "dlname d2 = dlname d" "dlhandle d2 = Some h"
    "loaded_functions d2 =
      take MAX_SYMBOLS (map (function_of img base strtab) (filter (exported STT_FUNC) syms))"
    "loaded_objects d2 =
      take MAX_SYMBOLS (map (object_of img base strtab) (filter (exported STT_OBJECT) syms))"
    using parse_symtab_spec [OF d1(1), of img base symtab strtab] d1 assms(9)
    by (auto simp: d2_def)
  have "parse_elf_header fuel img base d1 = Inr d2"
    using assms(6-8) by (simp add: parse_elf_header_def parse_dynamic_header_def Let_def d2_def)
  moreover have "parse_link_map fuel img pre d1 = Inr d1"
    by (rule parse_link_map_skip) (use assms(5) d1(6) in simp)
  moreover have "parse_link_map fuel img post d2 = Inr d2"
    by (rule parse_link_map_skip) (use assms(5) d2(2) in simp)
  ultimately have "parse_link_map fuel img (pre @ (l_name, base) # post) d1 = Inr d2"
    using assms(4) d1(6) by (simp add: parse_link_map_append)
  then have "dlfn_open q fuel img dlopen link_map d = Inr (True, sort_objects q (sort_functions q d2))"
    using assms(2,3) by (simp add: dlfn_open_def d1_def Let_def)
  then show ?thesis using sorted_tables [OF d2(1) assms(10) refl] d2 by simp
qed

text \<open>A small image: two functions and one object, the functions not in the order of addresses.\<close>

definition demo_image :: image where
  "demo_image =
     \<lparr>ehdr_at = (\<lambda>_. \<lparr>e_phoff = 64, e_phentsize = 56, e_phnum = 2\<rparr>),
      phdr_at = (\<lambda>a. if a = 0x1078 then \<lparr>p_type = PT_DYNAMIC, p_vaddr = 0x200\<rparr> else \<lparr>p_type = 1, p_vaddr = 0\<rparr>),
      dyn_at = (\<lambda>a. if a = 0x1200 then \<lparr>d_tag = DT_STRTAB, d_ptr = 0x1360\<rparr>
                 else if a = 0x1210 then \<lparr>d_tag = DT_SYMTAB, d_ptr = 0x1300\<rparr>
                 else \<lparr>d_tag = 0, d_ptr = 0\<rparr>),
      sym_at = (\<lambda>a. if a = 0x1318 then \<lparr>st_name = 1, st_info = 0x12, st_value = 0x50, st_size = 9\<rparr>
                 else if a = 0x1330 then \<lparr>st_name = 3, st_info = 0x12, st_value = 0x40, st_size = 9\<rparr>
                 else if a = 0x1348 then \<lparr>st_name = 5, st_info = 0x11, st_value = 0x90, st_size = 8\<rparr>
                 else \<lparr>st_name = 0, st_info = 0, st_value = 0, st_size = 0\<rparr>),
      str_at = (\<lambda>a. if a = 0x1361 then str ''f'' else if a = 0x1363 then str ''g'' else str ''o'')\<rparr>"

definition demo_dlfn :: dlfn_t where
  "demo_dlfn = snd (dlfn_init (str ''a.so'') dlfn_start)"

lemma demo_dlfn: "dlfn_closed demo_dlfn" "cstr (dlname demo_dlfn) = str ''a.so''"
proof -
  have upd: "(replicate 124 0)[123 := 0] = (replicate 124 0 :: byte list)"
    by (simp add: list_update_same_conv)
  have "cstr (nullterm (strncpy (str ''a.so'') MAX_PATH)) = str ''a.so''"
    using upd by (simp add: nullterm_def strncpy_def MAX_PATH_def str_def ch_def cstr_def)
  moreover have "strstr (str ''a.so'') (str ''.so'')" by (simp add: str_def ch_def)
  ultimately show "cstr (dlname demo_dlfn) = str ''a.so''"
    by (simp add: demo_dlfn_def dlfn_init_def)
  show "dlfn_closed demo_dlfn"
    using dlfn_start_closed
    by (auto simp: demo_dlfn_def dlfn_init_def dlfn_closed_def dlfn_wf_def strncpy_def MAX_PATH_def)
qed

theorem dlfn_open_exports_witness:
  "\<exists>d'. dlfn_open stable_sorter 3 demo_image (\<lambda>_. Some 1) (\<lambda>_. Some [(str ''/a.so'', 0x1000)]) demo_dlfn = Inr (True, d') \<and>
    map (\<lambda>f. (f_name f, call_address f)) (loaded_functions d') =
      [(Some (str ''g''), 0x1040), (Some (str ''f''), 0x1050)] \<and>
    map o_name (loaded_objects d') = [Some (str ''o'')]"
proof -
  have k: "symbol_count 0x1300 0x1360 = 4" by (simp add: symbol_count_def sizeof_sym_def)
  have "dynamic_header demo_image 56 (Suc (Suc 0)) 0x1040 None = Some \<lparr>p_type = PT_DYNAMIC, p_vaddr = 0x200\<rparr>"
    by (simp add: demo_image_def PT_DYNAMIC_def)
  moreover have "dynamic_tables (Suc (Suc (Suc 0))) demo_image 0x1200 (0, 0) = Inr (0x1360, 0x1300)"
    by (simp add: demo_image_def DT_STRTAB_def DT_SYMTAB_def sizeof_dyn_def Let_def)
  ultimately have ev:
    "dynamic_header demo_image 56 2 0x1040 None = Some \<lparr>p_type = PT_DYNAMIC, p_vaddr = 0x200\<rparr>"
    "dynamic_tables 3 demo_image 0x1200 (0, 0) = Inr (0x1360, 0x1300)"
    by (simp_all only: numeral_2_eq_2 numeral_3_eq_3)
  have "strstr (str ''/a.so'') (str ''a.so'')" by (simp add: str_def ch_def)
  then have "\<exists>d'. dlfn_open stable_sorter 3 demo_image (\<lambda>_. Some 1) (\<lambda>_. Some [(str ''/a.so'', 0x1000)]) demo_dlfn = Inr (True, d') \<and>
    loaded_functions d' = sort_key call_address
      (take MAX_SYMBOLS (map (function_of demo_image 0x1000 0x1360)
        (filter (exported STT_FUNC) (symbols demo_image (symbol_count 0x1300 0x1360) 0x1300)))) \<and>
    loaded_objects d' = sort_key address
      (take MAX_SYMBOLS (map (object_of demo_image 0x1000 0x1360)
        (filter (exported STT_OBJECT) (symbols demo_image (symbol_count 0x1300 0x1360) 0x1300)))) \<and>
    dlfn_wf d' \<and> dlhandle d' = Some 1"
    using ev demo_dlfn
    by (intro dlfn_open_exports [where q = stable_sorter, simplified, where pre = "[]" and post = "[]" and l_name = "str ''/a.so''" and
          ph = "\<lparr>p_type = PT_DYNAMIC, p_vaddr = 0x200\<rparr>"])
      (simp_all add: demo_image_def)
  moreover have "symbols demo_image 4 0x1300 =
      [\<lparr>st_name = 0, st_info = 0, st_value = 0, st_size = 0\<rparr>, \<lparr>st_name = 1, st_info = 0x12, st_value = 0x50, st_size = 9\<rparr>,
       \<lparr>st_name = 3, st_info = 0x12, st_value = 0x40, st_size = 9\<rparr>, \<lparr>st_name = 5, st_info = 0x11, st_value = 0x90, st_size = 8\<rparr>]"
    by (simp add: symbols_def sizeof_sym_def demo_image_def upt_rec)
  ultimately show ?thesis
    by (auto simp: k exported_def st_type_def st_bind_def STT_FUNC_def STT_OBJECT_def STB_GLOBAL_def
        MAX_SYMBOLS_def function_of_def object_of_def demo_image_def functor_init_def call_address_def)
qed

text \<open>A function is looked up by its exact name: the index found is that of the first function
  of that name, which after opening is the one at the lowest address, and nothing is found only
  when there is no such function.\<close>

theorem dlfn_get_symbol_first:
  assumes "dlfn_wf d" and "fs = loaded_functions d"
  shows "(case dlfn_get_symbol name d of
      None \<Rightarrow> \<forall>f \<in> set fs. f_name f \<noteq> Some name
    | Some i \<Rightarrow> i < length fs \<and> f_name (fs ! i) = Some name \<and>
        (\<forall>j < i. f_name (fs ! j) \<noteq> Some name) \<and>
        (sorted (map call_address fs) \<longrightarrow>
          (\<forall>f \<in> set fs. f_name f = Some name \<longrightarrow> call_address (fs ! i) \<le> call_address f)))"
proof (cases "dlfn_get_symbol name d")
  case None
  have len: "length fs = dlfn_used_function d"
    using assms by (simp add: loaded_functions_def dlfn_wf_def)
  have "f_name (fs ! i) \<noteq> Some name" if "i < length fs" for i
    using None that len assms(2)
    by (auto simp: dlfn_get_symbol_def find_None_iff loaded_functions_def split: option.splits)
  then show ?thesis using None by (auto simp: in_set_conv_nth)
next
  case (Some i)
  have len: "length fs = dlfn_used_function d"
    using assms by (simp add: loaded_functions_def dlfn_wf_def)
  have nth: "fs ! j = dlfn_function d ! j" if "j < length fs" for j
    using that len assms(2) by (simp add: loaded_functions_def)
  let ?P = "\<lambda>i. case f_name (dlfn_function d ! i) of None \<Rightarrow> False | Some n \<Rightarrow> strcmp_eq name n"
  obtain k where k: "k < length [0..<dlfn_used_function d]" "?P ([0..<dlfn_used_function d] ! k)"
    "i = [0..<dlfn_used_function d] ! k" "\<forall>j < k. \<not> ?P ([0..<dlfn_used_function d] ! j)"
    using Some unfolding dlfn_get_symbol_def find_Some_iff by blast
  have "k = i" "i < length fs" using k len by simp_all
  have no: "\<not> ?P j" if "j < i" for j
    using spec [OF k(4), of j] that k(1) \<open>k = i\<close> by simp
  have "f_name (fs ! j) \<noteq> Some name" if "j < i" for j
    using no [OF that] nth [of j] that \<open>i < length fs\<close> by auto
  then have i: "i < length fs" "f_name (fs ! i) = Some name" "\<forall>j < i. f_name (fs ! j) \<noteq> Some name"
    using \<open>i < length fs\<close> k(2,3) nth by (auto split: option.splits)
  have "call_address (fs ! i) \<le> call_address f"
    if "sorted (map call_address fs)" "f \<in> set fs" "f_name f = Some name" for f
  proof -
    obtain j where "j < length fs" "fs ! j = f" using \<open>f \<in> set fs\<close> by (auto simp: in_set_conv_nth)
    moreover have "i \<le> j" using i(3) calculation that(3) by (metis leI)
    ultimately show ?thesis
      using sorted_nth_mono [OF that(1), of i j] by simp
  qed
  then show ?thesis using Some i by simp
qed

theorem dlfn_get_symbol_first_witness:
  "dlfn_get_symbol (str ''f'') demo_dlfn = None"
proof -
  have "loaded_functions demo_dlfn = []" "dlfn_wf demo_dlfn"
    using demo_dlfn(1) by (simp_all add: dlfn_closed_def loaded_functions_def)
  then show ?thesis
    using dlfn_get_symbol_first [of demo_dlfn "[]" "str ''f''"] by (auto split: option.splits)
qed

lemma parse_elf_header_wf:
  assumes "dlfn_wf d" and "parse_elf_header fuel img a d = Inr d1"
  shows "dlfn_wf d1 \<and> dlname d1 = dlname d \<and> dlhandle d1 = dlhandle d"
proof (cases "dynamic_header img (ucast (e_phentsize (ehdr_at img a))) (unat (e_phnum (ehdr_at img a)))
    (a + e_phoff (ehdr_at img a)) None")
  case None
  then show ?thesis using assms by (simp add: parse_elf_header_def Let_def)
next
  case (Some ph)
  then obtain strtab symtab where d1: "d1 = (if symtab \<noteq> 0 then parse_symtab img a symtab strtab d else d)"
    using assms(2)
    by (cases "dynamic_tables fuel img (a + p_vaddr ph) (0, 0)")
      (auto simp: parse_elf_header_def parse_dynamic_header_def Let_def)
  then show ?thesis
    using assms(1) parse_symtab_spec [OF assms(1), of img a symtab strtab]
    by (cases "symtab = 0") auto
qed

lemma parse_link_map_wf:
  "dlfn_wf d \<Longrightarrow> parse_link_map fuel img ls d = Inr d' \<Longrightarrow>
   dlfn_wf d' \<and> dlname d' = dlname d \<and> dlhandle d' = dlhandle d"
proof (induction ls arbitrary: d)
  case (Cons x ls)
  obtain n a where x: "x = (n, a)" by (cases x)
  have step: "parse_elf_header fuel img a d = Inr d1 \<Longrightarrow>
      dlfn_wf d1 \<and> dlname d1 = dlname d \<and> dlhandle d1 = dlhandle d" for d1
    by (rule parse_elf_header_wf [OF Cons.prems(1)])
  obtain d1 where d1: "(if strstr n (cstr (dlname d)) then parse_elf_header fuel img a d else Inr d) = Inr d1"
    "parse_link_map fuel img ls d1 = Inr d'"
    using Cons.prems(2) by (auto simp: x rbind_eq_Inr)
  have "dlfn_wf d1 \<and> dlname d1 = dlname d \<and> dlhandle d1 = dlhandle d"
    using d1(1) step [of d1] Cons.prems(1) by (cases "strstr n (cstr (dlname d))") simp_all
  then show ?case using Cons.IH [OF _ d1(2)] by simp
qed simp

text \<open>C22: Reloading starts afresh: whatever was loaded before and however opening it went, after
  \<open>dlfn_shutdown\<close> and \<open>dlfn_init\<close> the whole state is the one \<open>dlfn_init\<close> makes of the
  program's initial state, so the next \<open>dlfn_open\<close> cannot see anything of the previous object.\<close>

theorem dlfn_reload_fresh:
  assumes "dlfn_closed d" and "dlfn_open q fuel img dlopen link_map (snd (dlfn_init path d)) = Inr (ok, d')"
    and "strstr path' (str ''.so'')" and "sorter_ok q"
  shows "dlfn_closed (dlfn_shutdown d') \<and>
    dlfn_init path' (dlfn_shutdown d') = (True, snd (dlfn_init path' dlfn_start))"
proof -
  define d0 where "d0 = snd (dlfn_init path d)"
  have d0: "dlfn_closed d0"
    using assms(1)
    by (auto simp: d0_def dlfn_init_def dlfn_closed_def dlfn_wf_def strncpy_def MAX_PATH_def)
  have "dlfn_wf d' \<and> (dlhandle d' = None \<longrightarrow> dlfn_closed d')"
  proof (cases "dlopen (cstr (dlname d0))")
    case None
    then show ?thesis
      using assms(2) d0 by (auto simp: dlfn_open_def Let_def dlfn_closed_def dlfn_wf_def simp flip: d0_def)
  next
    case (Some h)
    have wf1: "dlfn_wf (d0\<lparr>dlhandle := Some h\<rparr>)" using d0 by (simp add: dlfn_closed_def dlfn_wf_def)
    show ?thesis
    proof (cases "link_map h")
      case None
      then show ?thesis
        using assms(2) Some wf1 by (auto simp: dlfn_open_def Let_def simp flip: d0_def)
    next
      case (Some ls)
      then obtain d2 where d2: "parse_link_map fuel img ls (d0\<lparr>dlhandle := Some h\<rparr>) = Inr d2"
        "d' = sort_objects q (sort_functions q d2)"
        using assms(2) \<open>dlopen (cstr (dlname d0)) = Some h\<close>
        by (auto simp: dlfn_open_def Let_def rbind_eq_Inr simp flip: d0_def)
      then show ?thesis
        using parse_link_map_wf [OF wf1 d2(1)] sorted_tables [OF _ assms(4), of d2 d'] by simp
    qed
  qed
  then have closed: "dlfn_closed (dlfn_shutdown d')"
    by (auto simp: dlfn_shutdown_def dlfn_close_def dlfn_closed_def dlfn_wf_def Let_def)
  then have "dlfn_init path' (dlfn_shutdown d') = (True, snd (dlfn_init path' dlfn_start))"
    using assms(3) dlfn_start_closed
    by (simp add: dlfn_init_def dlfn_closed_def)
  then show ?thesis using closed by blast
qed

theorem dlfn_reload_fresh_witness:
  "\<exists>d'. dlfn_open stable_sorter 3 demo_image (\<lambda>_. Some 1) (\<lambda>_. Some [(str ''/b.so'', 0x1000)])
       (snd (dlfn_init (str ''a.so'') dlfn_start)) = Inr (True, d') \<and>
    dlfn_closed (dlfn_shutdown d') \<and>
    dlfn_init (str ''c.so'') (dlfn_shutdown d') = (True, snd (dlfn_init (str ''c.so'') dlfn_start))"
proof -
  have no: "\<not> strstr (str ''/b.so'') (cstr (dlname demo_dlfn))"
    by (simp add: demo_dlfn str_def ch_def)
  define d1 where "d1 = demo_dlfn\<lparr>dlhandle := Some 1\<rparr>"
  have "parse_link_map 3 demo_image [(str ''/b.so'', 0x1000)] d1 = Inr d1"
    by (rule parse_link_map_skip) (use no in \<open>simp add: d1_def\<close>)
  then have "dlfn_open stable_sorter 3 demo_image (\<lambda>_. Some 1) (\<lambda>_. Some [(str ''/b.so'', 0x1000)]) demo_dlfn =
      Inr (True, sort_objects stable_sorter (sort_functions stable_sorter d1))"
    by (simp add: dlfn_open_def Let_def d1_def)
  then obtain d' where d': "dlfn_open stable_sorter 3 demo_image (\<lambda>_. Some 1) (\<lambda>_. Some [(str ''/b.so'', 0x1000)])
       (snd (dlfn_init (str ''a.so'') dlfn_start)) = Inr (True, d')"
    unfolding demo_dlfn_def by blast
  have "strstr (str ''c.so'') (str ''.so'')" by (simp add: str_def ch_def)
  from dlfn_reload_fresh [OF dlfn_start_closed d' this] d' stable_sorter(1) show ?thesis by blast
qed

end
