(* ===== verification/Hash.thy ===== *)
theory Hash
  imports Prelude
begin

unbundle bit_operations_syntax

text \<open>
  \<^verbatim>\<open>hash.c\<close>: the djb2 hash of a block of memory, at 64 bits, and its continuation from a
  seed, which \<^verbatim>\<open>execute.c\<close> uses to chain the hashes of the objects of the loaded library.
\<close>

definition djb2_const :: u64 where
  "djb2_const = 5381"

text \<open>The read loop; a \<open>char\<close> is signed and is sign-extended before it is added.\<close>

fun memhash_loop :: "u64 \<Rightarrow> byte list \<Rightarrow> u64" where
  "memhash_loop hash_val [] = hash_val"
| "memhash_loop hash_val (c # cs) =
     memhash_loop ((push_bit 5 hash_val + hash_val) + scast c) cs"

definition memhash :: "byte list \<Rightarrow> u64 \<Rightarrow> u64 res" where
  "memhash buf len =
     rbind (opt_res OutOfBounds (mem_read 0 (unat len) buf)) (\<lambda>bs.
     Inr (memhash_loop djb2_const bs))"

definition memhash_cont :: "u64 \<Rightarrow> byte list \<Rightarrow> u64 \<Rightarrow> u64 res" where
  "memhash_cont seed buf len =
     rbind (opt_res OutOfBounds (mem_read 0 (unat len) buf)) (\<lambda>bs.
     Inr (memhash_loop seed bs))"

section \<open>The polynomial it computes\<close>

lemma memhash_loop_append: "memhash_loop h (a @ b) = memhash_loop (memhash_loop h a) b"
  by (induction a arbitrary: h) auto

lemma push_bit_5: "push_bit 5 h + h = 33 * (h :: u64)"
  by (simp add: push_bit_eq_mult algebra_simps)

fun poly33 :: "byte list \<Rightarrow> u64" where
  "poly33 [] = 0"
| "poly33 (c # cs) = scast c * 33 ^ length cs + poly33 cs"

lemma memhash_loop_poly: "memhash_loop h cs = h * 33 ^ length cs + poly33 cs"
  by (induction cs arbitrary: h) (simp_all add: push_bit_eq_mult algebra_simps)

lemma odd_mult_inj:
  fixes a b :: u64
  assumes "33 * a = 33 * b"
  shows "a = b"
proof -
  have "(1117984489315730401 * 33 :: u64) = 1" by simp
  then have inv: "c = 1117984489315730401 * (33 * c)" for c :: u64
    by (simp only: mult.assoc [symmetric] mult_1)
  show ?thesis using assms inv [of a] inv [of b] by (simp only:)
qed

lemma pow33_mult_inj: "33 ^ n * (a :: u64) = 33 ^ n * b \<Longrightarrow> a = b"
  by (induction n) (auto simp: mult.assoc dest: odd_mult_inj)

section \<open>Properties\<close>

text \<open>C30: The hash of a block is the djb2 polynomial: the seed times a power of 33 plus the sum of
  the sign-extended bytes times decreasing powers of 33, modulo \<open>2 ^ 64\<close>.\<close>

theorem memhash_polynomial:
  assumes "unat len = length buf"
  shows "memhash buf len = Inr (5381 * 33 ^ length buf + poly33 buf)"
  using assms by (simp add: memhash_def mem_read_def memhash_loop_poly djb2_const_def)

theorem memhash_polynomial_witness:
  "memhash [1, 255] 2 = Inr (5381 * 33 ^ 2 + (33 - 1))"
  using memhash_polynomial [of 2 "[1, 255]"] by simp

text \<open>Hashing can be cut anywhere: continuing the hash of one block over another is the hash of
  the two laid end to end; so chaining the objects of a library hashes all their bytes.\<close>

theorem memhash_cont_append:
  assumes "unat la = length a" and "unat lb = length b" and "unat lab = length a + length b"
  shows "rbind (memhash_cont seed a la) (\<lambda>h. memhash_cont h b lb) = memhash_cont seed (a @ b) lab"
  using assms by (simp add: memhash_cont_def mem_read_def memhash_loop_append)

theorem memhash_cont_append_witness:
  "rbind (memhash_cont 7 [1, 2] 2) (\<lambda>h. memhash_cont h [3] 1) = memhash_cont 7 [1, 2, 3] 3"
  using memhash_cont_append [of 2 "[1, 2]" 1 "[3]" 3 7] by simp

text \<open>The hash depends on the whole seed: for every block, continuing two different hashes over it
  gives different hashes, so a difference found at one object is never masked by later ones.\<close>

theorem memhash_cont_injective:
  assumes "memhash_cont s1 buf len = Inr h" and "memhash_cont s2 buf len = Inr h"
  shows "s1 = s2"
proof -
  have "s1 * 33 ^ length (take (unat len) buf) = s2 * 33 ^ length (take (unat len) buf)"
    using assms
    by (auto simp: memhash_cont_def mem_read_def memhash_loop_poly split: if_splits)
  then show ?thesis by (metis mult.commute pow33_mult_inj)
qed

theorem memhash_cont_injective_witness:
  "\<exists>h. memhash_cont 5381 [1] 1 = Inr h \<and> (5381 :: u64) = 5381"
proof -
  have h: "memhash_cont 5381 [1] 1 = Inr (5381 * 33 + 1)"
    by (simp add: memhash_cont_def mem_read_def push_bit_5)
  show ?thesis using h memhash_cont_injective [OF h h] by simp
qed

end
