(* ===== verification/Float.thy ===== *)
theory Float
  imports Ieee
begin

unbundle bit_operations_syntax

text \<open>\<^verbatim>\<open>float.c\<close>: conversions between integers and floating-point numbers.\<close>

section \<open>Operations\<close>

definition signed_to_float :: "u64 \<Rightarrow> float" where
  "signed_to_float i = f_of_int (sint i)"

definition signed_to_double :: "u64 \<Rightarrow> double" where
  "signed_to_double i = d_of_int (sint i)"

definition to_float :: "u64 \<Rightarrow> float" where
  "to_float i = f_of_int (uint i)"

definition to_double :: "u64 \<Rightarrow> double" where
  "to_double i = d_of_int (uint i)"

definition double_uint64 :: "double \<Rightarrow> u64 res" where
  "double_uint64 d = d_to_u64 d"

text \<open>The upper half of the number as an \<open>int32_t\<close>, and the exclusive or into it.\<close>

definition double_sign :: "double \<Rightarrow> u32" where
  "double_sign d = ucast (drop_bit 32 d) AND 0x80000000"

definition double_signxor :: "double \<Rightarrow> double \<Rightarrow> double" where
  "double_signxor d o' = d XOR push_bit 32 (ucast (double_sign o'))"

definition double_round_uint64 :: "double \<Rightarrow> u64 res" where
  "double_round_uint64 d =
     (let half = double_signxor 0x3FE0000000000000 d in d_to_u64 (d_add d half))"

section \<open>Lemmas\<close>

lemma fp_code_le: "fp_code t w num den \<le> (2 ^ w - 1) * 2 ^ t"
  by (simp add: fp_code_def Let_def)

lemma double_sign_bit: "double_sign d = (if bit d 63 then 0x80000000 else 0)"
proof -
  have "double_sign d = (if bit d 63 then push_bit 31 1 else 0)"
  proof (rule bit_word_eqI)
    fix n
    have mask: "(0x80000000 :: u32) = push_bit 31 1" by simp
    have "bit (0x80000000 :: u32) n \<longleftrightarrow> n = 31"
      unfolding mask by (subst bit_push_bit_iff) (auto simp: bit_1_iff possible_bit_def)
    then show "bit (double_sign d) n = bit (if bit d 63 then push_bit 31 1 else 0 :: u32) n"
      unfolding double_sign_def by (auto simp: bit_simps)
  qed
  then show ?thesis by simp
qed

lemma double_signxor_neg: "double_signxor d o' = (if bit o' 63 then d_neg d else d)"
  by (simp add: double_signxor_def double_sign_bit d_neg_def)

lemma d_scaled_sign: "bit (d_scaled s m e) 63 \<longleftrightarrow> s"
proof -
  define c where "c = fp_code 52 11 (m * 2 ^ nat e) (2 ^ nat (- e))"
  have "c \<le> 2047 * 2 ^ 52" using fp_code_le [of 52 11] by (simp add: c_def)
  then have c: "c < 2 ^ 63" by simp
  have "fp_bits 52 11 s (m * 2 ^ nat e) (2 ^ nat (- e)) = (if s then 2 ^ 63 else 0) + c"
    by (simp add: fp_bits_def c_def)
  moreover have "((if s then 2 ^ 63 else 0) + c) div 2 ^ 63 = (if s then 1 else 0)"
    using c by (cases s) (simp_all only: if_True if_False div_add_self1 div_less add_0)
  moreover have "unat (of_nat ((if s then 2 ^ 63 else 0) + c) :: u64) = (if s then 2 ^ 63 else 0) + c"
    using c by (intro unat_of_nat64) simp
  ultimately have "odd (unat (d_scaled s m e) div 2 ^ 63) \<longleftrightarrow> s"
    by (simp only: d_scaled_def fp_scaled_def) simp
  then show ?thesis
    unfolding bit_iff_odd [symmetric] by (simp add: bit_simps)
qed

section \<open>Properties\<close>

text \<open>C40: Counts survive the trip through \<open>double\<close>: every integer below \<open>2 ^ 53\<close>, a difference of
  time stamps for instance, is converted exactly and converted back to itself.\<close>

theorem to_double_roundtrip:
  assumes "unat i < 2 ^ 53"
  shows "double_uint64 (to_double i) = Inr i"
proof (cases "i = 0")
  case True
  then show ?thesis
    by (simp add: double_uint64_def to_double_def d_of_int_def d_to_u64_def truncate_mag_def)
next
  case False
  define n where "n = unat i"
  have n: "0 < n" "n < 2 ^ 53" using False assms by (simp_all add: n_def unat_gt_0)
  have "uint i = int n" by (simp add: n_def)
  then have "to_double i = d_scaled False n 0" by (simp add: to_double_def d_of_int_def)
  then have "dval (to_double i) = Fin False (n * 2 ^ (52 - ilog2 n)) (int (ilog2 n) - int 52)"
    using dval_int(1) [OF n] by simp
  moreover have "truncate_mag (n * 2 ^ (52 - ilog2 n)) (int (ilog2 n) - int 52) = n"
    using dval_int(2) [OF n] by (rule truncate_int)
  moreover have "(of_nat n :: u64) = i" by (simp add: n_def)
  ultimately show ?thesis
    using n(2) by (simp add: double_uint64_def d_to_u64_def)
qed

theorem to_double_roundtrip_witness: "double_uint64 (to_double 9007199254740991) = Inr 9007199254740991"
  by (rule to_double_roundtrip) simp

text \<open>The sign of a converted signed integer is the integer's own: \<open>double_sign\<close> of
  \<open>signed_to_double i\<close> is set exactly for negative \<open>i\<close>, however large the number is.\<close>

theorem signed_to_double_sign:
  "double_sign (signed_to_double i) = (if sint i < 0 then 0x80000000 else 0)"
  by (simp add: double_sign_bit signed_to_double_def d_of_int_def d_scaled_sign)

text \<open>\<open>double_round_uint64\<close> does not round to nearest: it maps the largest double below one half
  to 1, it maps the integer \<open>2 ^ 52 + 1\<close>, which needs no rounding, to \<open>2 ^ 52 + 2\<close>, and for -1 the
  conversion of the negative sum to an unsigned integer is undefined.\<close>

theorem double_round_misrounds:
  "dval 0x3FDFFFFFFFFFFFFF = Fin False (2 ^ 53 - 1) (- 54) \<and>
   double_round_uint64 0x3FDFFFFFFFFFFFFF = Inr 1 \<and>
   to_double (2 ^ 52 + 1) = 0x4330000000000001 \<and>
   double_round_uint64 (to_double (2 ^ 52 + 1)) = Inr (2 ^ 52 + 2) \<and>
   double_round_uint64 (signed_to_double (- 1)) = Inl BadConversion"
proof (intro conjI)
  show "dval 0x3FDFFFFFFFFFFFFF = Fin False (2 ^ 53 - 1) (- 54)"
    by (simp add: fp_eval)
  show "double_round_uint64 0x3FDFFFFFFFFFFFFF = Inr 1"
    by (simp add: double_round_uint64_def double_signxor_neg d_neg_def)
      (simp add: d_add_def d_to_u64_def fp_eval)
  show big: "to_double (2 ^ 52 + 1) = 0x4330000000000001"
    by (simp add: to_double_def d_of_int_def fp_eval)
  show "double_round_uint64 (to_double (2 ^ 52 + 1)) = Inr (2 ^ 52 + 2)"
    unfolding big
    by (simp add: double_round_uint64_def double_signxor_neg d_neg_def)
      (simp add: d_add_def d_to_u64_def fp_eval)
  have neg: "signed_to_double (- 1) = 0xBFF0000000000000"
    by (simp add: signed_to_double_def d_of_int_def fp_eval)
  show "double_round_uint64 (signed_to_double (- 1)) = Inl BadConversion"
    unfolding neg
    by (simp add: double_round_uint64_def double_signxor_neg d_neg_def)
      (simp add: d_add_def d_to_u64_def fp_eval)
qed

end
