(* ===== verification/Stats.thy ===== *)
theory Stats
  imports Float Complex_Main
begin

text \<open>
  \<^verbatim>\<open>stats.c\<close>: running mean and variance. The operations are given over any arithmetic; the code's
  are the instance on doubles, and the instance on the reals says what is computed up to rounding.
\<close>

section \<open>Arithmetic\<close>

record 'a arith =
  a_add :: "'a \<Rightarrow> 'a \<Rightarrow> 'a"
  a_sub :: "'a \<Rightarrow> 'a \<Rightarrow> 'a"
  a_mul :: "'a \<Rightarrow> 'a \<Rightarrow> 'a"
  a_div :: "'a \<Rightarrow> 'a \<Rightarrow> 'a"
  a_sqrt :: "'a \<Rightarrow> 'a"
  a_max :: "'a \<Rightarrow> 'a \<Rightarrow> 'a"
  a_min :: "'a \<Rightarrow> 'a \<Rightarrow> 'a"
  a_int :: "int \<Rightarrow> 'a"

text \<open>\<open>fmax\<close> and \<open>fmin\<close> ignore an operand that is no number.\<close>

definition fmax :: "double \<Rightarrow> double \<Rightarrow> double" where
  "fmax x y =
     (if dval x = NaN then y else if dval y = NaN then x else if d_less x y then y else x)"

definition fmin :: "double \<Rightarrow> double \<Rightarrow> double" where
  "fmin x y =
     (if dval x = NaN then y else if dval y = NaN then x else if d_less y x then y else x)"

definition doubles :: "double arith" where
  "doubles =
     \<lparr>a_add = d_add, a_sub = d_sub, a_mul = d_mul, a_div = d_div, a_sqrt = d_sqrt,
      a_max = fmax, a_min = fmin, a_int = d_of_int\<rparr>"

definition reals :: "real arith" where
  "reals =
     \<lparr>a_add = (+), a_sub = (-), a_mul = (*), a_div = (/), a_sqrt = sqrt,
      a_max = max, a_min = min, a_int = of_int\<rparr>"

section \<open>State and operations\<close>

record 'a stats =
  moment0 :: 'a
  moment1 :: 'a
  moment2 :: 'a
  stat_min :: 'a
  stat_max :: 'a

definition stats_count :: "'a stats \<Rightarrow> 'a" where
  "stats_count accum = moment0 accum"

definition stats_mean :: "'a stats \<Rightarrow> 'a" where
  "stats_mean accum = moment1 accum"

definition stats_variance :: "'a arith \<Rightarrow> 'a stats \<Rightarrow> 'a" where
  "stats_variance A accum = a_div A (moment2 accum) (moment0 accum)"

definition stats_unbiased_rs_dev :: "'a arith \<Rightarrow> 'a stats \<Rightarrow> 'a" where
  "stats_unbiased_rs_dev A accum =
     a_sqrt A (a_div A (moment2 accum)
       (a_mul A (a_mul A (moment1 accum) (moment1 accum)) (a_sub A (moment0 accum) (a_int A 1))))"

definition stats_min :: "'a stats \<Rightarrow> 'a" where
  "stats_min accum = stat_min accum"

definition stats_max :: "'a stats \<Rightarrow> 'a" where
  "stats_max accum = stat_max accum"

text \<open>\<open>~0u\<close> is the largest 32-bit number.\<close>

definition stats_init :: "'a arith \<Rightarrow> 'a stats" where
  "stats_init A =
     \<lparr>moment0 = a_int A 0, moment1 = a_int A 0, moment2 = a_int A 0,
      stat_min = a_int A 4294967295, stat_max = a_int A 0\<rparr>"

definition stats_init_array :: "'a arith \<Rightarrow> nat \<Rightarrow> 'a stats list \<Rightarrow> 'a stats list res" where
  "stats_init_array A n stats =
     (if n \<le> length stats then Inr (replicate n (stats_init A) @ drop n stats)
      else Inl OutOfBounds)"

definition stats_add :: "'a arith \<Rightarrow> 'a \<Rightarrow> 'a stats \<Rightarrow> 'a stats" where
  "stats_add A sample accum =
     (let n = moment0 accum;
          n1 = a_add A n (a_int A 1);
          diff_from_mean = a_sub A sample (moment1 accum);
          mean_accum = a_div A diff_from_mean n1;
          delta2 = a_mul A (a_mul A mean_accum diff_from_mean) n
      in \<lparr>moment0 = a_add A (moment0 accum) (a_int A 1),
          moment1 = a_add A (moment1 accum) mean_accum,
          moment2 = a_add A (moment2 accum) delta2,
          stat_min = a_min A sample (stat_min accum),
          stat_max = a_max A sample (stat_max accum)\<rparr>)"

definition stats_of :: "'a arith \<Rightarrow> 'a list \<Rightarrow> 'a stats" where
  "stats_of A xs = foldl (\<lambda>s x. stats_add A x s) (stats_init A) xs"

lemma stats_of_simps [simp]:
  "stats_of A [] = stats_init A" "stats_of A (xs @ [x]) = stats_add A x (stats_of A xs)"
  by (simp_all add: stats_of_def)

section \<open>Properties\<close>

definition real_mean :: "real list \<Rightarrow> real" where
  "real_mean xs = sum_list xs / real (length xs)"

definition square_dev :: "real list \<Rightarrow> real \<Rightarrow> real" where
  "square_dev xs c = (\<Sum>x\<leftarrow>xs. (x - c)\<^sup>2)"

lemma square_dev_shift:
  "square_dev xs c = (\<Sum>x\<leftarrow>xs. x\<^sup>2) - 2 * c * sum_list xs + real (length xs) * c\<^sup>2"
  unfolding square_dev_def
  by (induction xs) (simp_all add: power2_eq_square algebra_simps)

lemma welford_step:
  fixes n mu x Q :: real
  assumes "0 \<le> n"
  shows "Q - mu * (mu * n) + (x - mu) / (n + 1) * (x - mu) * n =
      Q + x\<^sup>2 - (mu + (x - mu) / (n + 1)) * (mu * n + x)"
    and "(mu + (x - mu) / (n + 1)) * (n + 1) = mu * n + x"
proof -
  have "n + 1 \<noteq> 0" using assms by simp
  then show "Q - mu * (mu * n) + (x - mu) / (n + 1) * (x - mu) * n =
      Q + x\<^sup>2 - (mu + (x - mu) / (n + 1)) * (mu * n + x)"
    and "(mu + (x - mu) / (n + 1)) * (n + 1) = mu * n + x"
    by (simp_all add: field_simps power2_eq_square)
qed

lemma stats_of_reals:
  "moment0 (stats_of reals xs) = real (length xs) \<and>
   moment1 (stats_of reals xs) * real (length xs) = sum_list xs \<and>
   moment2 (stats_of reals xs) = (\<Sum>x\<leftarrow>xs. x\<^sup>2) - moment1 (stats_of reals xs) * sum_list xs"
proof (induction xs rule: rev_induct)
  case (snoc x xs)
  define mu where "mu = moment1 (stats_of reals xs)"
  have S: "sum_list xs = mu * real (length xs)" using snoc by (simp add: mu_def)
  have m: "moment0 (stats_of reals xs) = real (length xs)"
    "moment2 (stats_of reals xs) = (\<Sum>x\<leftarrow>xs. x\<^sup>2) - mu * (mu * real (length xs))"
    using snoc S by (simp_all add: mu_def)
  have ops: "a_add reals = (+)" "a_sub reals = (-)" "a_mul reals = (*)" "a_div reals = (/)"
    "a_int reals 1 = 1"
    by (simp_all add: reals_def)
  show ?case
    using welford_step(1) [of "real (length xs)" "\<Sum>x\<leftarrow>xs. x\<^sup>2" mu x]
      welford_step(2) [of "real (length xs)" mu x]
    by (simp add: stats_add_def Let_def ops m S add.commute flip: mu_def)
qed (simp add: stats_init_def reals_def)

text \<open>C24: Up to rounding, \<open>stats_add\<close> keeps the number of samples, their mean, and the sum of the
  squares of their deviations from the mean: on the real numbers the incremental formulas give
  exactly these, so that \<open>stats_variance\<close> is the variance of the samples.\<close>

theorem stats_exact_on_reals:
  assumes "xs \<noteq> []"
  shows "stats_count (stats_of reals xs) = real (length xs) \<and>
    stats_mean (stats_of reals xs) = real_mean xs \<and>
    moment2 (stats_of reals xs) = square_dev xs (real_mean xs) \<and>
    stats_variance reals (stats_of reals xs) =
      square_dev xs (real_mean xs) / real (length xs)"
proof -
  have n: "real (length xs) \<noteq> 0" using assms by simp
  note m = stats_of_reals [of xs]
  then have mean: "moment1 (stats_of reals xs) = real_mean xs"
    using n by (simp add: real_mean_def field_simps)
  have "real_mean xs * real (length xs) = sum_list xs" using n by (simp add: real_mean_def)
  then have "square_dev xs (real_mean xs) = (\<Sum>x\<leftarrow>xs. x\<^sup>2) - real_mean xs * sum_list xs"
    by (simp add: square_dev_shift power2_eq_square algebra_simps)
  then show ?thesis
    using m mean
    by (simp add: stats_count_def stats_mean_def stats_variance_def reals_def)
qed

theorem stats_exact_on_reals_witness:
  "stats_mean (stats_of reals [1, 2, 6]) = 3 \<and> stats_variance reals (stats_of reals [1, 2, 6]) = 14 / 3"
  using stats_exact_on_reals [of "[1, 2, 6]"]
  by (simp add: real_mean_def square_dev_def)

text \<open>The sample count kept in a \<open>double\<close> is exact: after fewer than \<open>2 ^ 53\<close> samples, whatever
  they are, it is their number.\<close>

theorem stats_count_exact:
  assumes "length xs < 2 ^ 53"
  shows "stats_count (stats_of doubles xs) = to_double (of_nat (length xs))"
  using assms
proof (induction xs rule: rev_induct)
  case Nil
  then show ?case
    by (simp add: stats_count_def stats_init_def doubles_def to_double_def d_of_int_def)
next
  case (snoc x xs)
  define n where "n = length xs"
  have n: "n < 2 ^ 53" "unat (of_nat n :: u64) = n" "unat (of_nat (Suc n) :: u64) = Suc n"
    using snoc.prems unat_of_nat64 [of n] unat_of_nat64 [of "Suc n"] by (simp_all add: n_def)
  have uint: "uint (of_nat n :: u64) = int n" "uint (of_nat (Suc n) :: u64) = int (Suc n)"
    using n(2,3) by (simp_all only: uint_nat)
  have "moment0 (stats_of doubles xs) = d_of_int (int n)"
    using snoc uint by (simp add: stats_count_def to_double_def n_def)
  moreover have "d_add (d_of_int (int n)) (d_of_int 1) = d_of_int (int (Suc n))"
    using d_add_nat [OF n(1), of 1] unfolding of_nat_1 Suc_eq_plus1 by simp
  ultimately show ?case
    using uint by (simp add: stats_count_def stats_add_def doubles_def to_double_def Let_def
        flip: n_def del: of_nat_Suc)
qed

theorem stats_count_exact_witness:
  "stats_count (stats_of doubles [0x7FF8000000000000, 0]) = to_double 2"
  using stats_count_exact [of "[0x7FF8000000000000, 0]"] by simp

text \<open>The minimum starts at \<open>~0u\<close>, the largest 32-bit number, not at infinity: when every sample
  is larger, the minimum that is reported is none of the samples.\<close>

theorem stats_min_capped:
  assumes "\<forall>x \<in> set xs. 4294967295 < x"
  shows "stats_min (stats_of reals xs) = 4294967295 \<and> stats_min (stats_of reals xs) \<notin> set xs"
proof -
  have "stats_min (stats_of reals xs) = 4294967295"
    using assms
    by (induction xs rule: rev_induct)
      (simp_all add: stats_min_def stats_init_def stats_add_def reals_def Let_def)
  then show ?thesis using assms by auto
qed

theorem stats_min_capped_witness: "stats_min (stats_of reals [5000000000]) = 4294967295"
  using stats_min_capped [of "[5000000000]"] by simp

end
