(* ===== verification/Execute.thy ===== *)
theory Execute
  imports Global Dlfn Hash Stats
begin

unbundle bit_operations_syntax

text \<open>
  \<^verbatim>\<open>execute.c\<close>: the commands of the players, executed against the loaded functions and objects
  and the variables, and the copies that run around every call of a loaded function: variables into
  parameters before it, the result into a variable after it.
\<close>

section \<open>State\<close>

text \<open>The memory of the loaded object, and its code: what a call at an address returns and does to
  that memory.\<close>

type_synonym memory = "u64 \<Rightarrow> byte"
type_synonym library = "u64 \<Rightarrow> param list \<Rightarrow> memory \<Rightarrow> u64 \<times> memory"

definition MAX_FUNC :: nat where
  "MAX_FUNC = MAX_SYMBOLS * PARAM_COUNT"

record machine =
  hash_objects :: "u64 list"
  result :: "u64 list"
  load_param_handle :: "int list list"
  save_result_handle :: "int list"
  result_func :: "functor_t list"
  used_result_func :: nat
  globals :: globals_t
  dlfn :: dlfn_t
  memory :: memory

definition machine_start :: "memory \<Rightarrow> machine" where
  "machine_start mem =
     \<lparr>hash_objects = replicate MAX_SYMBOLS 0, result = replicate MAX_SYMBOLS 0,
      load_param_handle = replicate MAX_SYMBOLS (replicate PARAM_COUNT 0),
      save_result_handle = replicate MAX_SYMBOLS 0,
      result_func = replicate MAX_FUNC functor_zero, used_result_func = 0,
      globals = globals_start, dlfn = dlfn_start, memory = mem\<rparr>"

definition set_param :: "nat \<Rightarrow> nat \<Rightarrow> param \<Rightarrow> machine \<Rightarrow> machine" where
  "set_param fi pj p m =
     m\<lparr>dlfn := (dlfn m)\<lparr>dlfn_function := (dlfn_function (dlfn m))
        [fi := (dlfn_function (dlfn m) ! fi)
           \<lparr>fnctor := (fnctor (dlfn_function (dlfn m) ! fi))
              \<lparr>params := (params (fnctor (dlfn_function (dlfn m) ! fi)))[pj := p]\<rparr>\<rparr>]\<rparr>\<rparr>"

definition set_var :: "nat \<Rightarrow> (global_t \<Rightarrow> global_t) \<Rightarrow> machine \<Rightarrow> machine" where
  "set_var k f m =
     m\<lparr>globals := (globals m)\<lparr>global_var := (global_var (globals m))[k := f (global_var (globals m) ! k)]\<rparr>\<rparr>"

text \<open>Reading and writing the 64 bits a pointer points to.\<close>

definition load_ptr :: "pointer \<Rightarrow> machine \<Rightarrow> param res" where
  "load_ptr p m =
     (case p of
        PVar k \<Rightarrow> Inl BadTag
      | PValue k \<Rightarrow> if k < length (global_var (globals m)) then Inr (g_value (global_var (globals m) ! k))
                    else Inl OutOfBounds
      | PParam fi pj \<Rightarrow>
          if fi < length (dlfn_function (dlfn m)) \<and> pj < length (params (fnctor (dlfn_function (dlfn m) ! fi)))
          then Inr (params (fnctor (dlfn_function (dlfn m) ! fi)) ! pj) else Inl OutOfBounds
      | PResult k \<Rightarrow> if k < length (result m) then Inr (Bits (result m ! k)) else Inl OutOfBounds)"

definition store_ptr :: "pointer \<Rightarrow> param \<Rightarrow> machine \<Rightarrow> machine res" where
  "store_ptr p v m =
     (case p of
        PVar k \<Rightarrow> Inl BadTag
      | PValue k \<Rightarrow> if k < length (global_var (globals m)) then Inr (set_var k (\<lambda>x. x\<lparr>g_value := v\<rparr>) m)
                    else Inl OutOfBounds
      | PParam fi pj \<Rightarrow>
          if fi < length (dlfn_function (dlfn m)) \<and> pj < length (params (fnctor (dlfn_function (dlfn m) ! fi)))
          then Inr (set_param fi pj v m) else Inl OutOfBounds
      | PResult k \<Rightarrow>
          if k < length (result m) then rbind (param_bits v) (\<lambda>w. Inr (m\<lparr>result := (result m)[k := w]\<rparr>))
          else Inl OutOfBounds)"

section \<open>Calls\<close>

definition noop :: u64 where
  "noop = 0"

definition copy :: "pointer \<Rightarrow> pointer \<Rightarrow> machine \<Rightarrow> (u64 \<times> machine) res" where
  "copy dst src m =
     rbind (load_ptr src m) (\<lambda>v.
     rbind (store_ptr dst v m) (\<lambda>m'.
     Inr (1, m')))"

text \<open>What a call through a function pointer does.\<close>

definition call_func :: "library \<Rightarrow> func \<Rightarrow> param list \<Rightarrow> machine \<Rightarrow> (u64 \<times> machine) res" where
  "call_func lib f ps m =
     (case f of
        Noop \<Rightarrow> Inr (noop, m)
      | Copy \<Rightarrow> rbind (param_addr (ps ! 0)) (\<lambda>dst. rbind (param_addr (ps ! 1)) (\<lambda>src. copy dst src m))
      | Loaded a \<Rightarrow> (let (r, mem') = lib a ps (memory m) in Inr (r, m\<lparr>memory := mem'\<rparr>)))"

text \<open>The new handle, or -1.\<close>

definition add_result_func :: "functor_t \<Rightarrow> machine \<Rightarrow> int \<times> machine" where
  "add_result_func f m =
     (if used_result_func m \<ge> MAX_FUNC then (- 1, m)
      else (int (used_result_func m),
            m\<lparr>result_func := (result_func m)[used_result_func m := f],
              used_result_func := used_result_func m + 1\<rparr>))"

definition execute_init :: "machine \<Rightarrow> machine" where
  "execute_init m =
     snd (add_result_func (functor_init (Some Noop))
       (m\<lparr>result := replicate (length (result m)) 0,
          result_func := replicate (length (result_func m)) functor_zero,
          used_result_func := 0,
          load_param_handle := map (\<lambda>hs. replicate (length hs) 0) (load_param_handle m)\<rparr>))"

definition invoke_handle :: "library \<Rightarrow> int \<Rightarrow> machine \<Rightarrow> machine res" where
  "invoke_handle lib func m =
     (if func < 0 \<or> nat func \<ge> length (result_func m) then Inl OutOfBounds
      else rbind (functor_invoke (call_func lib) (result_func m ! nat func) m) (\<lambda>(_, m'). Inr m'))"

fun load_params_from :: "library \<Rightarrow> nat \<Rightarrow> nat list \<Rightarrow> machine \<Rightarrow> machine res" where
  "load_params_from lib symbol_offset [] m = Inr m"
| "load_params_from lib symbol_offset (i # is) m =
     rbind (invoke_handle lib (load_param_handle m ! symbol_offset ! i) m)
       (load_params_from lib symbol_offset is)"

definition call_load_param :: "library \<Rightarrow> nat \<Rightarrow> machine \<Rightarrow> machine res" where
  "call_load_param lib symbol_offset m = load_params_from lib symbol_offset [0..<PARAM_COUNT] m"

definition call_store_result :: "library \<Rightarrow> nat \<Rightarrow> machine \<Rightarrow> machine res" where
  "call_store_result lib symbol_offset m = invoke_handle lib (save_result_handle m ! symbol_offset) m"

section \<open>Numbers\<close>

definition isspace :: "byte \<Rightarrow> bool" where
  "isspace c \<longleftrightarrow> c = 32 \<or> 9 \<le> c \<and> c \<le> 13"

text \<open>The value of a digit, of any base.\<close>

definition digit_value :: "byte \<Rightarrow> nat" where
  "digit_value c =
     (if 48 \<le> c \<and> c \<le> 57 then unat c - 48
      else if 97 \<le> c \<and> c \<le> 122 then unat c - 87
      else if 65 \<le> c \<and> c \<le> 90 then unat c - 55
      else 99)"

definition is_digit :: "nat \<Rightarrow> byte \<Rightarrow> bool" where
  "is_digit base c \<longleftrightarrow> digit_value c < base"

definition number :: "nat \<Rightarrow> byte list \<Rightarrow> nat" where
  "number base ds = foldl (\<lambda>n c. n * base + digit_value c) 0 ds"

definition skip_sign :: "byte list \<Rightarrow> bool \<times> byte list" where
  "skip_sign s =
     (case s of [] \<Rightarrow> (False, s)
      | c # r \<Rightarrow> if c = 45 then (True, r) else if c = 43 then (False, r) else (False, s))"

definition hex_prefix :: "byte list \<Rightarrow> bool" where
  "hex_prefix s \<longleftrightarrow> (case s of a # x # _ \<Rightarrow> a = 48 \<and> (x = 120 \<or> x = 88) | _ \<Rightarrow> False)"

text \<open>\<open>strtol\<close> with base 0: decimal, octal after \<open>0\<close>, hexadecimal after \<open>0x\<close>; clamped to 64 bits.\<close>

definition strtol :: "byte list \<Rightarrow> u64" where
  "strtol s =
     (let (neg, t) = skip_sign (dropWhile isspace s);
          n = (if hex_prefix t \<and> takeWhile (is_digit 16) (drop 2 t) \<noteq> []
               then number 16 (takeWhile (is_digit 16) (drop 2 t))
               else if t \<noteq> [] \<and> hd t = 48 then number 8 (takeWhile (is_digit 8) t)
               else number 10 (takeWhile (is_digit 10) t));
          v = (if neg then - int n else int n)
      in word_of_int (max (- (2 ^ 63)) (min v (2 ^ 63 - 1))))"

text \<open>
  \<open>strtod\<close>: the digits of the mantissa before and after the point, in base 10 or 16; the exponent
  after \<open>e\<close> or \<open>p\<close>, when a digit follows.
\<close>

definition mantissa :: "nat \<Rightarrow> byte list \<Rightarrow> byte list \<times> nat \<times> byte list" where
  "mantissa base s =
     (let a = takeWhile (is_digit base) s; r = dropWhile (is_digit base) s
      in case r of
           c # r' \<Rightarrow> if c = 46 then (a @ takeWhile (is_digit base) r',
                                     length (takeWhile (is_digit base) r'), dropWhile (is_digit base) r')
                     else (a, 0, r)
         | [] \<Rightarrow> (a, 0, r))"

definition exponent :: "byte \<Rightarrow> byte list \<Rightarrow> int" where
  "exponent e s =
     (case s of
        [] \<Rightarrow> 0
      | c # r \<Rightarrow>
          if c = e \<or> c = e - 32 then
            (let (neg, t) = skip_sign r; x = int (number 10 (takeWhile (is_digit 10) t))
             in if neg then - x else x)
          else 0)"

definition lower :: "byte \<Rightarrow> byte" where
  "lower c = (if 65 \<le> c \<and> c \<le> 90 then c + 32 else c)"

definition strtod :: "byte list \<Rightarrow> double" where
  "strtod s =
     (let (neg, t) = skip_sign (dropWhile isspace s);
          sign = (if neg then 0x8000000000000000 else 0);
          (hex, hfrac, hrest) = mantissa 16 (drop 2 t);
          (dec, frac, rest) = mantissa 10 t
      in if starts_with (str ''inf'') (map lower t) then d_inf neg
         else if starts_with (str ''nan'') (map lower t) then 0x7FF8000000000000 OR sign
         else if hex_prefix t \<and> hex \<noteq> [] then
           d_scaled neg (number 16 hex) (exponent 112 hrest - 4 * int hfrac)
         else if dec \<noteq> [] then
           (let x = exponent 101 rest - int frac
            in of_nat (fp_bits 52 11 neg (number 10 dec * 10 ^ nat x) (10 ^ nat (- x))))
         else 0)"

section \<open>Commands\<close>

text \<open>
  The loop of \<open>tokenize\<close>: \<open>n\<close> characters are left, \<open>token\<close> holds the offsets found so far.
\<close>

fun tokenize_from :: "nat \<Rightarrow> nat \<Rightarrow> nat \<Rightarrow> byte list \<Rightarrow> nat list \<Rightarrow> (nat list \<times> byte list) res" where
  "tokenize_from 0 token_count iter input token = Inr (token, input)"
| "tokenize_from (Suc n) token_count iter input token =
     (if length token \<ge> token_count then Inr (token, input)
      else if iter \<ge> length input then Inl OutOfBounds
      else if input ! iter = ch CHR '' '' then
        tokenize_from n token_count (iter + 1) (input[iter := 0]) (token @ [iter + 1])
      else tokenize_from n token_count (iter + 1) input token)"

definition tokenize :: "nat \<Rightarrow> byte list \<Rightarrow> nat \<Rightarrow> (nat list \<times> byte list) res" where
  "tokenize len input token_count = tokenize_from len token_count 0 input [0]"

text \<open>The tokens as strings: each ends at the first NUL after its start.\<close>

definition tokens :: "nat \<Rightarrow> byte list \<Rightarrow> nat \<Rightarrow> byte list list res" where
  "tokens len input token_count =
     rbind (tokenize len input token_count) (\<lambda>(token, buf).
     if \<forall>t \<in> set token. 0 \<in> set (drop t buf) then Inr (map (\<lambda>t. cstr (drop t buf)) token)
     else Inl OutOfBounds)"

text \<open>\<open>token[k][0]\<close>.\<close>

definition first_char :: "byte list \<Rightarrow> byte" where
  "first_char s = (case s of [] \<Rightarrow> 0 | c # _ \<Rightarrow> c)"

definition set_value_param :: "byte list \<Rightarrow> byte \<times> param" where
  "set_value_param str_value =
     (if ch CHR ''.'' \<in> set str_value \<or> ch CHR ''e'' \<in> set str_value
      then (ty_double, Bits (strtod str_value))
      else (ty_int, Bits (strtol str_value)))"

definition copy_functor :: "pointer \<Rightarrow> pointer \<Rightarrow> functor_t" where
  "copy_functor dst src = \<lparr>call = Some Copy, params = [Addr dst, Addr src, Bits 0]\<rparr>"

definition set_load_param :: "byte list \<Rightarrow> pointer \<Rightarrow> machine \<Rightarrow> int \<times> machine" where
  "set_load_param str_value p m =
     (case global_get str_value (globals m) of
        None \<Rightarrow> (0, m)
      | Some k \<Rightarrow>
          add_result_func (copy_functor p (PValue k)) (set_var k (\<lambda>v. v\<lparr>g_type := ty_int\<rparr>) m))"

definition set_store_param :: "byte list \<Rightarrow> pointer \<Rightarrow> machine \<Rightarrow> int \<times> machine" where
  "set_store_param str_value result_ptr m =
     (let (var, g) = global_get_or_create str_value (globals m); m1 = m\<lparr>globals := g\<rparr> in
      case var of
        None \<Rightarrow> (0, m1)
      | Some k \<Rightarrow>
          add_result_func (copy_functor (PValue k) result_ptr) (set_var k (\<lambda>v. v\<lparr>g_type := ty_int\<rparr>) m1))"

definition SIMULATION_MAX :: u32 where
  "SIMULATION_MAX = 0xFFFFFFFF"

definition execute_simulation :: "nat \<Rightarrow> byte list \<Rightarrow> u32 res" where
  "execute_simulation len input =
     rbind (tokens len input 2) (\<lambda>token.
     Inr (if length token = 1 then SIMULATION_MAX else ucast (strtol (token ! 1))))"

fun set_params :: "byte list list \<Rightarrow> nat \<Rightarrow> nat list \<Rightarrow> machine \<Rightarrow> machine" where
  "set_params token fi [] m = m"
| "set_params token fi (pj # pjs) m =
     (let token_index = pj + 2 in
      if token_index \<ge> length token then m
      else
        let (func, m1) = set_load_param (token ! token_index) (PParam fi pj) m;
            m2 = m1\<lparr>load_param_handle := (load_param_handle m1)
                  [fi := (load_param_handle m1 ! fi)[pj := func]]\<rparr>
        in set_params token fi pjs
             (if func > 0 then m2 else set_param fi pj (snd (set_value_param (token ! token_index))) m2))"

definition name_of :: "machine \<Rightarrow> nat \<Rightarrow> byte list" where
  "name_of m fi = (case f_name (dlfn_function (dlfn m) ! fi) of None \<Rightarrow> [] | Some n \<Rightarrow> n)"

fun parameter_from :: "byte list list \<Rightarrow> nat list \<Rightarrow> machine \<Rightarrow> machine" where
  "parameter_from token [] m = m"
| "parameter_from token (fi # fis) m =
     (let wanted = (if first_char (token ! 1) = ch CHR ''*'' then name_of m fi else token ! 1) in
      parameter_from token fis
        (if \<not> strcmp_eq wanted (name_of m fi) then m else set_params token fi [0..<PARAM_COUNT] m))"

definition execute_parameter :: "nat \<Rightarrow> byte list \<Rightarrow> machine \<Rightarrow> machine res" where
  "execute_parameter len input m =
     rbind (tokens len input 6) (\<lambda>token.
     Inr (if length token < 2 then m
          else parameter_from token [0..<dlfn_used_function (dlfn m)] m))"

text \<open>The object printed: nothing changes.\<close>

definition execute_object :: "nat \<Rightarrow> byte list \<Rightarrow> machine \<Rightarrow> unit res" where
  "execute_object len input m =
     rbind (tokens len input 2) (\<lambda>token.
     if length token < 2 then Inr ()
     else case dlfn_get_object (token ! 1) (dlfn m) of
            None \<Rightarrow> Inl NullDeref
          | Some i \<Rightarrow> Inr ())"

definition object_bytes :: "memory \<Rightarrow> object_t \<Rightarrow> byte list" where
  "object_bytes mem ob = map (\<lambda>i. mem (address ob + of_nat i)) [0..<unat (bytes ob)]"

fun hash_from :: "nat list \<Rightarrow> u64 \<Rightarrow> machine \<Rightarrow> machine res" where
  "hash_from [] hash_val m = Inr m"
| "hash_from (i # is) hash_val m =
     (let ob = dlfn_object (dlfn m) ! i in
      rbind (memhash_cont hash_val (object_bytes (memory m) ob) (bytes ob)) (\<lambda>h.
      hash_from is h (m\<lparr>hash_objects := (hash_objects m)[i := h]\<rparr>)))"

definition execute_hash :: "machine \<Rightarrow> machine res" where
  "execute_hash m =
     rbind (memhash [] 0) (\<lambda>hash_val.
     hash_from [0..<dlfn_used_object (dlfn m)] hash_val
       (m\<lparr>hash_objects := replicate (length (hash_objects m)) 0\<rparr>))"

definition execute_variable :: "nat \<Rightarrow> byte list \<Rightarrow> machine \<Rightarrow> machine res" where
  "execute_variable len input m =
     rbind (tokens len input 3) (\<lambda>token.
     if length token < 3 then Inr m
     else
       let (var, g) = global_get_or_create (token ! 1) (globals m); m1 = m\<lparr>globals := g\<rparr> in
       case var of
         None \<Rightarrow> Inr m1
       | Some k \<Rightarrow>
           let (ty, value) = set_value_param (token ! 2)
           in Inr (set_var k (\<lambda>v. v\<lparr>g_value := value, g_type := ty\<rparr>) m1))"

definition execute_result :: "nat \<Rightarrow> byte list \<Rightarrow> machine \<Rightarrow> machine res" where
  "execute_result len input m =
     rbind (tokens len input 3) (\<lambda>token.
     if length token < 3 then Inr m
     else case dlfn_get_symbol (token ! 1) (dlfn m) of
            None \<Rightarrow> Inr m
          | Some sym_offset \<Rightarrow>
              let (func, m1) = set_store_param (token ! 2) (PResult sym_offset) m
              in Inr (m1\<lparr>save_result_handle := (save_result_handle m1)[sym_offset := func]\<rparr>))"

text \<open>The operand a token denotes: a variable, or else a constant.\<close>

definition operand_of :: "machine \<Rightarrow> byte list \<Rightarrow> byte \<times> param" where
  "operand_of m tok =
     (case global_get tok (globals m) of
        Some k \<Rightarrow> (ty_pointer, Addr (PVar k))
      | None \<Rightarrow> set_value_param tok)"

definition execute_mutation :: "nat \<Rightarrow> byte list \<Rightarrow> machine \<Rightarrow> machine res" where
  "execute_mutation len input m =
     rbind (tokens len input 4) (\<lambda>token.
     if length token < 4 then Inr m
     else case global_get (token ! 1) (globals m) of
            None \<Rightarrow> Inr m
          | Some lhv \<Rightarrow>
              let (ty, rhv) = operand_of m (token ! 3);
                  op = \<lparr>operand = [Addr (PVar lhv), rhv], operand_type = [ty_pointer, ty],
                        opcode = first_char (token ! 2)\<rparr>
              in Inr (set_var lhv (\<lambda>v. v\<lparr>g_op := op\<rparr>) m))"

text \<open>The result printed, \<open>None\<close> for the usage message; \<open>junk\<close> is the uninitialised \<open>result\<close>.\<close>

definition execute_condition :: "param \<Rightarrow> nat \<Rightarrow> byte list \<Rightarrow> machine \<Rightarrow> (byte \<times> param) option res" where
  "execute_condition junk len input m =
     rbind (tokens len input 4) (\<lambda>token.
     if length token < 4 then Inr None
     else
       let (t0, lhv) = operand_of m (token ! 1); (t1, rhv) = operand_of m (token ! 3);
           op = \<lparr>operand = [lhv, rhv], operand_type = [t0, t1], opcode = first_char (token ! 2)\<rparr>
       in rbind (perform_op (global_var (globals m)) op junk) (\<lambda>r. Inr (Some r)))"

section \<open>The benchmark\<close>

text \<open>\<open>rd n\<close> is the \<open>n\<close>-th reading of the time stamp counter, \<open>t\<close> the number of readings so
  far.\<close>

fun bench_calls ::
  "library \<Rightarrow> (nat \<Rightarrow> u64) \<Rightarrow> nat \<Rightarrow> nat \<Rightarrow> double \<Rightarrow> double stats \<Rightarrow> nat \<Rightarrow> machine \<Rightarrow>
   (double \<times> double stats \<times> nat \<times> machine) res"
where
  "bench_calls lib rd i 0 sm st t m = Inr (sm, st, t, m)"
| "bench_calls lib rd i (Suc j) sm st t m =
     rbind (functor_invoke (call_func lib) (fnctor (dlfn_function (dlfn m) ! i)) m) (\<lambda>(_, m').
     let duration = to_double (rd (t + 1) - rd t)
     in bench_calls lib rd i j (d_add sm duration) (stats_add doubles duration st) (t + 2) m')"

fun bench_functions ::
  "library \<Rightarrow> (nat \<Rightarrow> u64) \<Rightarrow> nat \<Rightarrow> nat list \<Rightarrow> double stats \<Rightarrow> double stats list \<Rightarrow> nat \<Rightarrow> machine \<Rightarrow>
   (double stats \<times> double stats list \<times> nat \<times> machine) res"
where
  "bench_functions lib rd calls [] aggregate perfStats t m = Inr (aggregate, perfStats, t, m)"
| "bench_functions lib rd calls (i # is) aggregate perfStats t m =
     rbind (bench_calls lib rd i calls 0 (perfStats ! i) t m) (\<lambda>(sm, st, t', m').
     bench_functions lib rd calls is (stats_add doubles sm aggregate) (perfStats[i := st]) t' m')"

text \<open>The magnitudes left; the statistics printed for each magnitude are returned.\<close>

fun bench_loop ::
  "library \<Rightarrow> (nat \<Rightarrow> u64) \<Rightarrow> nat \<Rightarrow> nat \<Rightarrow> double stats \<Rightarrow> nat \<Rightarrow> machine \<Rightarrow>
   (double stats list list \<times> nat \<times> machine) res"
where
  "bench_loop lib rd 0 calls aggregate t m = Inr ([], t, m)"
| "bench_loop lib rd (Suc h) calls aggregate t m =
     rbind (bench_functions lib rd calls [0..<dlfn_used_function (dlfn m)] aggregate
             (replicate MAX_SYMBOLS (stats_init doubles)) t m) (\<lambda>(aggregate', perfStats, t', m').
     if d_less (d_of_int 10000000) (stats_max aggregate') then Inr ([perfStats], t', m')
     else if calls * 10 \<ge> 2 ^ 31 then Inl SignedOverflow
     else rbind (bench_loop lib rd h (calls * 10) aggregate' t' m') (\<lambda>(rows, t'', m'').
          Inr (perfStats # rows, t'', m'')))"

definition execute_benchmark ::
  "library \<Rightarrow> (nat \<Rightarrow> u64) \<Rightarrow> nat \<Rightarrow> machine \<Rightarrow> (double stats list list \<times> nat \<times> machine) res"
where
  "execute_benchmark lib rd t m = bench_loop lib rd 10 1 (stats_init doubles) t m"

section \<open>Tokens\<close>

text \<open>A command is cut at its first spaces; the last of \<open>n\<close> tokens takes the rest.\<close>

fun split_spaces :: "nat \<Rightarrow> byte list \<Rightarrow> byte list list" where
  "split_spaces 0 s = []"
| "split_spaces (Suc 0) s = [s]"
| "split_spaces (Suc (Suc n)) [] = [[]]"
| "split_spaces (Suc (Suc n)) (c # s) =
     (if c = 32 then [] # split_spaces (Suc n) s
      else (c # hd (split_spaces (Suc (Suc n)) s)) # tl (split_spaces (Suc (Suc n)) s))"

fun cuts :: "nat \<Rightarrow> nat \<Rightarrow> byte list \<Rightarrow> nat list" where
  "cuts 0 off s = []"
| "cuts (Suc n) off [] = []"
| "cuts (Suc n) off (c # s) =
     (if c = 32 then off # cuts n (Suc off) s else cuts (Suc n) (Suc off) s)"

fun blanked :: "nat \<Rightarrow> byte list \<Rightarrow> byte list" where
  "blanked 0 s = s"
| "blanked (Suc n) [] = []"
| "blanked (Suc n) (c # s) = (if c = 32 then 0 # blanked n s else c # blanked (Suc n) s)"

lemma space_char [simp]: "ch CHR '' '' = 32"
  by (simp add: ch_def)

lemma split_spaces_neq [simp]: "split_spaces (Suc n) s \<noteq> []"
  by (induction "Suc n" s arbitrary: n rule: split_spaces.induct) auto

lemma tokenize_from_cuts:
  "tokenize_from (length s) tc (length pre) (pre @ s @ r) tok =
   Inr (tok @ cuts (tc - length tok) (Suc (length pre)) s, pre @ blanked (tc - length tok) s @ r)"
proof (induction s arbitrary: pre tok)
  case Nil
  then show ?case by (cases "tc - length tok") simp_all
next
  case (Cons c s)
  show ?case
  proof (cases "length tok \<ge> tc")
    case True
    then show ?thesis by simp
  next
    case False
    then obtain n where n: "tc - length tok = Suc n" "tc - Suc (length tok) = n"
      by (cases "tc - length tok") auto
    show ?thesis
      using False n Cons.IH [of "pre @ [0]" "tok @ [Suc (length pre)]"] Cons.IH [of "pre @ [c]" tok]
      by (simp add: list_update_append)
  qed
qed

lemma cuts_split:
  assumes "nul_free s"
  shows "cstr (blanked n s @ 0 # r) = hd (split_spaces (Suc n) s) \<and>
    map (\<lambda>t. cstr (drop t (pre @ blanked n s @ 0 # r))) (cuts n (Suc (length pre)) s) =
      tl (split_spaces (Suc n) s)"
  using assms
proof (induction s arbitrary: n pre)
  case Nil
  show ?case by (cases n) (simp_all add: cstr_def)
next
  case (Cons c s)
  show ?case
  proof (cases n)
    case 0
    then show ?thesis using Cons.prems cstr_terminated [of "c # s" r] by simp
  next
    case (Suc k)
    have c: "c \<noteq> 0" "nul_free s" using Cons.prems by auto
    show ?thesis
    proof (cases "c = 32")
      case True
      then show ?thesis
        using Suc Cons.IH [OF c(2), of k "pre @ [0]"] by (simp add: cstr_def)
    next
      case False
      then show ?thesis
        using Suc c Cons.IH [OF c(2), of "Suc k" "pre @ [c]"] by (simp add: cstr_def)
    qed
  qed
qed

lemma cuts_bound: "t \<in> set (cuts n off s) \<Longrightarrow> t < off + length s"
  by (induction n off s rule: cuts.induct) (auto split: if_splits)

lemma length_blanked [simp]: "length (blanked n s) = length s"
  by (induction n s rule: blanked.induct) auto

lemma tokens_split:
  assumes "nul_free s"
  shows "tokens (length s) (s @ 0 # r) (Suc n) = Inr (split_spaces (Suc n) s)"
proof -
  have "tokenize (length s) (s @ 0 # r) (Suc n) = Inr (0 # cuts n 1 s, blanked n s @ 0 # r)"
    using tokenize_from_cuts [of s "Suc n" "[]" "0 # r" "[0]"] by (simp add: tokenize_def)
  moreover have "\<forall>t \<in> set (0 # cuts n 1 s). 0 \<in> set (drop t (blanked n s @ 0 # r))"
    using cuts_bound [of _ n 1 s] by fastforce
  moreover have "map (\<lambda>t. cstr (drop t (blanked n s @ 0 # r))) (0 # cuts n 1 s) = split_spaces (Suc n) s"
    using cuts_split [OF assms, of n r "[]"] split_spaces_neq [of n s]
    by simp
  ultimately show ?thesis by (simp add: tokens_def)
qed

section \<open>Numbers as they are typed\<close>

fun decimal :: "nat \<Rightarrow> byte list" where
  "decimal n = (if n < 10 then [48 + of_nat n] else decimal (n div 10) @ [48 + of_nat (n mod 10)])"

declare decimal.simps [simp del]

definition typed_int :: "int \<Rightarrow> byte list" where
  "typed_int i = (if i < 0 then [45] else []) @ decimal (nat \<bar>i\<bar>)"

lemma digit_char:
  assumes "n < 10"
  shows "digit_value (48 + of_nat n) = n" and "\<not> isspace (48 + of_nat n)"
    and "(48 + of_nat n :: byte) \<notin> {0, 43, 45, 46, 101}" and "(of_nat n :: byte) = 0 \<longleftrightarrow> n = 0"
proof -
  have n: "n = 0 \<or> n = 1 \<or> n = 2 \<or> n = 3 \<or> n = 4 \<or> n = 5 \<or> n = 6 \<or> n = 7 \<or> n = 8 \<or> n = 9"
    using assms by arith
  show "digit_value (48 + of_nat n) = n"
    using n by (elim disjE) (simp_all add: digit_value_def)
  show "\<not> isspace (48 + of_nat n)"
    using n by (elim disjE) (simp_all add: isspace_def)
  show "(48 + of_nat n :: byte) \<notin> {0, 43, 45, 46, 101}"
    using n by (elim disjE) simp_all
  show "(of_nat n :: byte) = 0 \<longleftrightarrow> n = 0"
    using n by (elim disjE) simp_all
qed

lemma decimal_digits: "c \<in> set (decimal n) \<Longrightarrow> \<exists>k < 10. c = 48 + of_nat k"
proof (induction n rule: decimal.induct)
  case (1 n)
  show ?case
  proof (cases "n < 10")
    case True
    then show ?thesis using 1(2) by (auto simp: decimal.simps [of n])
  next
    case False
    then have "c \<in> set (decimal (n div 10)) \<or> c = 48 + of_nat (n mod 10)"
      using 1(2) by (auto simp: decimal.simps [of n])
    then show ?thesis
    proof
      assume "c = 48 + of_nat (n mod 10)"
      then show ?thesis by (intro exI [of _ "n mod 10"]) simp
    qed (use 1(1) False in blast)
  qed
qed

lemma decimal_number: "number 10 (decimal n) = n"
proof (induction n rule: decimal.induct)
  case (1 n)
  show ?case
  proof (cases "n < 10")
    case True
    then show ?thesis by (simp add: decimal.simps [of n] number_def digit_char)
  next
    case False
    then show ?thesis using 1 by (simp add: decimal.simps [of n] number_def digit_char)
  qed
qed

lemma decimal_hd: "decimal n \<noteq> [] \<and> (hd (decimal n) = 48 \<longleftrightarrow> n = 0)"
proof (induction n rule: decimal.induct)
  case (1 n)
  show ?case
  proof (cases "n < 10")
    case True
    then show ?thesis by (simp add: decimal.simps [of n] digit_char(4))
  next
    case False
    then show ?thesis using 1 by (simp add: decimal.simps [of n])
  qed
qed

lemma strtol_decimal:
  assumes "- (2 ^ 63) \<le> i" and "i < 2 ^ 63"
  shows "strtol (typed_int i) = word_of_int i"
proof -
  let ?d = "decimal (nat \<bar>i\<bar>)"
  have dig: "\<forall>c \<in> set ?d. is_digit 10 c \<and> \<not> isspace c \<and> c \<notin> {0, 43, 45, 46, 101}"
    using decimal_digits digit_char(1-3) unfolding is_digit_def by metis
  have hd: "?d \<noteq> []" "hd ?d = 48 \<longleftrightarrow> i = 0" using decimal_hd [of "nat \<bar>i\<bar>"] by auto
  then obtain c r where cr: "?d = c # r" by (cases ?d) auto
  have c: "is_digit 10 c" "\<not> isspace c" "c \<noteq> 43" "c \<noteq> 45" using dig cr by auto
  have "skip_sign (dropWhile isspace ((if i < 0 then [45] else []) @ c # r)) = (i < 0, c # r)"
    using c(2-4) by (cases "i < 0") (simp_all add: skip_sign_def isspace_def [of 45])
  then have sgn: "skip_sign (dropWhile isspace (typed_int i)) = (i < 0, ?d)"
    unfolding typed_int_def cr .
  obtain D where D: "D = ?d" by blast
  have take: "takeWhile (is_digit 10) D = D" using dig by (simp add: takeWhile_eq_all_conv D)
  have val: "(if i < 0 then - int (nat \<bar>i\<bar>) else int (nat \<bar>i\<bar>)) = i" by simp
  have clamp: "max (- (2 ^ 63)) (min i (2 ^ 63 - 1)) = i" using assms by simp
  note run = strtol_def [of "typed_int i", unfolded sgn [folded D] Let_def prod.case]
  show ?thesis
  proof (cases "i = 0")
    case True
    then have "D = [48]" by (simp add: D decimal.simps)
    then show ?thesis
      unfolding run using True
      by (simp add: hex_prefix_def number_def is_digit_def digit_value_def)
  next
    case False
    then have "\<not> hex_prefix D" "hd D \<noteq> 48"
      using hd cr by (simp_all add: D hex_prefix_def split: list.splits)
    then show ?thesis
      unfolding run if_not_P [OF \<open>hd D \<noteq> 48\<close>] using take
      by (simp only: decimal_number [of "nat \<bar>i\<bar>", folded D] val clamp simp_thms if_False)
  qed
qed

end
