(* ===== verification/Execute_Safety.thy ===== *)
theory Execute_Safety
  imports Execute
begin

text \<open>
  The state of the interpreter is well formed, its commands keep it so as long as the table of
  copies has room, and the handles that a call of a loaded function goes through are valid.
\<close>

section \<open>The invariant\<close>

definition pointer_ok :: "pointer \<Rightarrow> bool" where
  "pointer_ok p \<longleftrightarrow>
     (case p of
        PVar k \<Rightarrow> False
      | PValue k \<Rightarrow> k < MAX_VARIABLE
      | PParam fi pj \<Rightarrow> fi < MAX_SYMBOLS \<and> pj < PARAM_COUNT
      | PResult k \<Rightarrow> k < MAX_SYMBOLS)"

text \<open>An entry of the table of copies: the first is \<open>noop\<close>, the others copy.\<close>

definition ptr_of :: "param \<Rightarrow> pointer" where
  "ptr_of p = (case p of Addr a \<Rightarrow> a | Bits _ \<Rightarrow> PVar 0)"

definition copier :: "functor_t \<Rightarrow> bool" where
  "copier f \<longleftrightarrow>
     f = functor_init (Some Noop) \<or>
     (let dst = ptr_of (params f ! 0); src = ptr_of (params f ! 1)
      in pointer_ok dst \<and> pointer_ok src \<and> f = copy_functor dst src)"

definition loaded :: "functor_t \<Rightarrow> bool" where
  "loaded f \<longleftrightarrow> (case call f of Some (Loaded a) \<Rightarrow> True | _ \<Rightarrow> False)"

definition functions_wf :: "dlfn_t \<Rightarrow> bool" where
  "functions_wf d \<longleftrightarrow>
     dlfn_wf d \<and>
     (\<forall>f \<in> set (dlfn_function d).
        length (params (fnctor f)) = PARAM_COUNT \<and> (\<forall>p \<in> set (params (fnctor f)). is_bits p)) \<and>
     (\<forall>i < dlfn_used_function d. loaded (fnctor (dlfn_function d ! i)))"

definition machine_wf :: "machine \<Rightarrow> bool" where
  "machine_wf m \<longleftrightarrow>
     length (hash_objects m) = MAX_SYMBOLS \<and> length (result m) = MAX_SYMBOLS \<and>
     length (load_param_handle m) = MAX_SYMBOLS \<and>
     (\<forall>hs \<in> set (load_param_handle m). length hs = PARAM_COUNT) \<and>
     length (save_result_handle m) = MAX_SYMBOLS \<and>
     length (result_func m) = MAX_FUNC \<and> used_result_func m \<le> MAX_FUNC \<and>
     (\<forall>i < used_result_func m. copier (result_func m ! i)) \<and>
     globals_wf (globals m) \<and> functions_wf (dlfn m)"

text \<open>Every handle names an entry in use.\<close>

definition handles_ok :: "machine \<Rightarrow> bool" where
  "handles_ok m \<longleftrightarrow>
     0 < used_result_func m \<and>
     (\<forall>hs \<in> set (load_param_handle m). \<forall>h \<in> set hs. 0 \<le> h \<and> h < int (used_result_func m)) \<and>
     (\<forall>h \<in> set (save_result_handle m). 0 \<le> h \<and> h < int (used_result_func m))"

text \<open>What copies and calls leave alone.\<close>

definition same_tables :: "machine \<Rightarrow> machine \<Rightarrow> bool" where
  "same_tables m m' \<longleftrightarrow>
     load_param_handle m' = load_param_handle m \<and> save_result_handle m' = save_result_handle m \<and>
     result_func m' = result_func m \<and> used_result_func m' = used_result_func m \<and>
     global_used (globals m') = global_used (globals m) \<and>
     dlfn_used_function (dlfn m') = dlfn_used_function (dlfn m)"

lemma same_tables_refl [simp]: "same_tables m m"
  by (simp add: same_tables_def)

lemma same_tables_trans: "same_tables a b \<Longrightarrow> same_tables b c \<Longrightarrow> same_tables a c"
  by (simp add: same_tables_def)

lemma same_tables_handles: "same_tables m m' \<Longrightarrow> handles_ok m' \<longleftrightarrow> handles_ok m"
  by (simp add: same_tables_def handles_ok_def)

lemma copy_functor_copier [simp]: "pointer_ok dst \<Longrightarrow> pointer_ok src \<Longrightarrow> copier (copy_functor dst src)"
  by (simp add: copier_def copy_functor_def ptr_of_def)

lemma noop_copier [simp]: "copier (functor_init (Some Noop))"
  by (simp add: copier_def)

lemma copierE:
  assumes "copier f"
  obtains "f = functor_init (Some Noop)"
  | dst src where "pointer_ok dst" "pointer_ok src" "f = copy_functor dst src"
  using assms unfolding copier_def Let_def by blast

section \<open>The primitives keep it\<close>

lemma set_var_wf:
  assumes "machine_wf m" and "k < MAX_VARIABLE" and "\<And>v. var_wf v \<Longrightarrow> var_wf (f v)"
  shows "machine_wf (set_var k f m) \<and> same_tables m (set_var k f m)"
proof -
  have g: "globals_wf (globals m)" using assms(1) by (simp add: machine_wf_def)
  then have "var_wf (f (global_var (globals m) ! k))"
    using assms(2,3) by (simp add: globals_wf_def)
  then have "globals_wf ((globals m)\<lparr>global_var := (global_var (globals m))
      [k := f (global_var (globals m) ! k)]\<rparr>)"
    using g set_update_subset_insert [of "global_var (globals m)" k "f (global_var (globals m) ! k)"]
    by (auto simp: globals_wf_def)
  then show ?thesis using assms(1) by (simp add: machine_wf_def set_var_def same_tables_def)
qed

lemma function_params:
  assumes "functions_wf d" and "fi < MAX_SYMBOLS"
  shows "length (params (fnctor (dlfn_function d ! fi))) = PARAM_COUNT"
    and "\<forall>p \<in> set (params (fnctor (dlfn_function d ! fi))). is_bits p"
proof -
  have "dlfn_function d ! fi \<in> set (dlfn_function d)"
    using assms by (simp add: functions_wf_def dlfn_wf_def)
  then show "length (params (fnctor (dlfn_function d ! fi))) = PARAM_COUNT"
    and "\<forall>p \<in> set (params (fnctor (dlfn_function d ! fi))). is_bits p"
    using assms(1) unfolding functions_wf_def by blast+
qed

lemma set_param_functions:
  assumes "functions_wf d" and "fi < MAX_SYMBOLS" and "is_bits p"
    and "d' = d\<lparr>dlfn_function := (dlfn_function d)[fi := (dlfn_function d ! fi)
      \<lparr>fnctor := (fnctor (dlfn_function d ! fi))
        \<lparr>params := (params (fnctor (dlfn_function d ! fi)))[pj := p]\<rparr>\<rparr>]\<rparr>"
  shows "functions_wf d'"
proof -
  have len: "length (dlfn_function d) = MAX_SYMBOLS"
    using assms(1) by (simp add: functions_wf_def dlfn_wf_def)
  let ?f = "dlfn_function d ! fi"
  let ?f' = "?f\<lparr>fnctor := (fnctor ?f)\<lparr>params := (params (fnctor ?f))[pj := p]\<rparr>\<rparr>"
  have old: "length (params (fnctor ?f)) = PARAM_COUNT" "\<forall>p \<in> set (params (fnctor ?f)). is_bits p"
    by (rule function_params [OF assms(1,2)])+
  have "\<forall>q \<in> set ((params (fnctor ?f))[pj := p]). is_bits q"
    using old(2) assms(3) set_update_subset_insert [of "params (fnctor ?f)" pj p] by blast
  then have new: "length (params (fnctor ?f')) = PARAM_COUNT" "\<forall>p \<in> set (params (fnctor ?f')). is_bits p"
    using old(1) by simp_all
  have all: "\<forall>f \<in> set ((dlfn_function d)[fi := ?f']).
      length (params (fnctor f)) = PARAM_COUNT \<and> (\<forall>p \<in> set (params (fnctor f)). is_bits p)"
    using assms(1) new set_update_subset_insert [of "dlfn_function d" fi ?f']
    unfolding functions_wf_def by blast
  have calls: "loaded (fnctor ((dlfn_function d)[fi := ?f'] ! i)) = loaded (fnctor (dlfn_function d ! i))"
    for i
    using assms(2) len by (cases "i = fi") (simp_all add: loaded_def)
  show ?thesis
    using assms(1) all calls unfolding functions_wf_def assms(4) by (simp add: dlfn_wf_def)
qed

lemma set_param_wf:
  assumes "machine_wf m" and "fi < MAX_SYMBOLS" and "is_bits p"
  shows "machine_wf (set_param fi pj p m) \<and> same_tables m (set_param fi pj p m)"
  using assms set_param_functions [OF _ assms(2,3) refl, of "dlfn m" pj]
  by (simp add: machine_wf_def set_param_def same_tables_def)

lemma param_length:
  "machine_wf m \<Longrightarrow> fi < MAX_SYMBOLS \<Longrightarrow>
   length (dlfn_function (dlfn m)) = MAX_SYMBOLS \<and>
   length (params (fnctor (dlfn_function (dlfn m) ! fi))) = PARAM_COUNT"
  by (simp add: machine_wf_def functions_wf_def dlfn_wf_def)

lemma load_ptr_wf:
  assumes "machine_wf m" and "pointer_ok p"
  shows "\<exists>w. load_ptr p m = Inr (Bits w)"
proof (cases p)
  case (PVar k)
  then show ?thesis using assms(2) by (simp add: pointer_ok_def)
next
  case (PValue k)
  then have "k < length (global_var (globals m))" "var_wf (global_var (globals m) ! k)"
    using assms by (simp_all add: pointer_ok_def machine_wf_def globals_wf_def)
  then show ?thesis using PValue by (auto simp: load_ptr_def var_wf_def elim: is_bitsE)
next
  case (PParam fi pj)
  then have i: "fi < MAX_SYMBOLS" "pj < PARAM_COUNT" using assms(2) by (simp_all add: pointer_ok_def)
  note len = param_length [OF assms(1) i(1)]
  have "\<forall>q \<in> set (params (fnctor (dlfn_function (dlfn m) ! fi))). is_bits q"
    using assms(1) i(1) function_params(2) unfolding machine_wf_def by blast
  then have "is_bits (params (fnctor (dlfn_function (dlfn m) ! fi)) ! pj)" using i(2) len by simp
  then show ?thesis using PParam i len by (auto simp: load_ptr_def elim: is_bitsE)
next
  case (PResult k)
  then show ?thesis using assms by (simp add: load_ptr_def pointer_ok_def machine_wf_def)
qed

lemma store_ptr_wf:
  assumes "machine_wf m" and "pointer_ok p"
  shows "\<exists>m'. store_ptr p (Bits w) m = Inr m' \<and> machine_wf m' \<and> same_tables m m'"
proof (cases p)
  case (PVar k)
  then show ?thesis using assms(2) by (simp add: pointer_ok_def)
next
  case (PValue k)
  then have "k < MAX_VARIABLE" "length (global_var (globals m)) = MAX_VARIABLE"
    using assms by (simp_all add: pointer_ok_def machine_wf_def globals_wf_def)
  then show ?thesis
    using PValue set_var_wf [OF assms(1), of k "\<lambda>x. x\<lparr>g_value := Bits w\<rparr>"]
    by (simp add: store_ptr_def var_wf_def)
next
  case (PParam fi pj)
  then have i: "fi < MAX_SYMBOLS" "pj < PARAM_COUNT" using assms(2) by (simp_all add: pointer_ok_def)
  then show ?thesis
    using PParam param_length [OF assms(1) i(1)] set_param_wf [OF assms(1) i(1), of "Bits w" pj]
    by (simp add: store_ptr_def)
next
  case (PResult k)
  then show ?thesis
    using assms by (simp add: store_ptr_def pointer_ok_def machine_wf_def same_tables_def)
qed

lemma invoke_handle_wf:
  assumes "machine_wf m" and "0 \<le> h" and "h < int (used_result_func m)"
  shows "\<exists>m'. invoke_handle lib h m = Inr m' \<and> machine_wf m' \<and> same_tables m m'"
proof -
  have n: "nat h < used_result_func m" using assms(2,3) by simp
  then have len: "nat h < length (result_func m)" using assms(1) by (simp add: machine_wf_def)
  have "copier (result_func m ! nat h)" using assms(1) n by (simp add: machine_wf_def)
  then show ?thesis
  proof (cases rule: copierE)
    case 1
    then show ?thesis
      using assms len by (simp add: invoke_handle_def functor_invoke_def functor_init_def call_func_def)
  next
    case (2 dst src)
    obtain w where "load_ptr src m = Inr (Bits w)" using load_ptr_wf [OF assms(1) 2(2)] by blast
    moreover obtain m' where "store_ptr dst (Bits w) m = Inr m'" "machine_wf m'" "same_tables m m'"
      using store_ptr_wf [OF assms(1) 2(1), of w] by blast
    ultimately show ?thesis
      using assms(2) len 2(3)
      by (simp add: invoke_handle_def functor_invoke_def copy_functor_def call_func_def copy_def)
  qed
qed

lemma load_params_from_wf:
  assumes "machine_wf m" and "handles_ok m" and "i < MAX_SYMBOLS" and "\<forall>j \<in> set js. j < PARAM_COUNT"
  shows "\<exists>m'. load_params_from lib i js m = Inr m' \<and> machine_wf m' \<and> same_tables m m'"
  using assms
proof (induction js arbitrary: m)
  case (Cons j js)
  have "load_param_handle m ! i \<in> set (load_param_handle m)"
    using Cons.prems(1,3) by (simp add: machine_wf_def)
  then have "load_param_handle m ! i ! j \<in> set (load_param_handle m ! i)"
    using Cons.prems(1,4) by (simp add: machine_wf_def)
  then have h: "0 \<le> load_param_handle m ! i ! j"
    "load_param_handle m ! i ! j < int (used_result_func m)"
    using Cons.prems(2) \<open>load_param_handle m ! i \<in> set (load_param_handle m)\<close>
    unfolding handles_ok_def by blast+
  obtain m1 where m1: "invoke_handle lib (load_param_handle m ! i ! j) m = Inr m1" "machine_wf m1"
    "same_tables m m1"
    using invoke_handle_wf [OF Cons.prems(1) h] by blast
  then have "handles_ok m1" using Cons.prems(2) same_tables_handles by blast
  from Cons.IH [OF m1(2) this Cons.prems(3)] Cons.prems(4) m1 show ?case
    by (auto intro: same_tables_trans)
qed simp

lemma call_load_param_wf:
  assumes "machine_wf m" and "handles_ok m" and "i < MAX_SYMBOLS"
  shows "\<exists>m'. call_load_param lib i m = Inr m' \<and> machine_wf m' \<and> same_tables m m'"
  using load_params_from_wf [OF assms] by (simp add: call_load_param_def)

lemma call_store_result_wf:
  assumes "machine_wf m" and "handles_ok m" and "i < MAX_SYMBOLS"
  shows "\<exists>m'. call_store_result lib i m = Inr m' \<and> machine_wf m' \<and> same_tables m m'"
proof -
  have "save_result_handle m ! i \<in> set (save_result_handle m)"
    using assms(1,3) by (simp add: machine_wf_def)
  then show ?thesis
    using invoke_handle_wf [OF assms(1)] assms(2) by (simp add: call_store_result_def handles_ok_def)
qed

lemma invoke_function_wf:
  assumes "machine_wf m" and "i < dlfn_used_function (dlfn m)"
  shows "\<exists>a r mem'. call (fnctor (dlfn_function (dlfn m) ! i)) = Some (Loaded a) \<and>
    lib a (params (fnctor (dlfn_function (dlfn m) ! i))) (memory m) = (r, mem') \<and>
    functor_invoke (call_func lib) (fnctor (dlfn_function (dlfn m) ! i)) m = Inr (r, m\<lparr>memory := mem'\<rparr>) \<and>
    machine_wf (m\<lparr>memory := mem'\<rparr>) \<and> same_tables m (m\<lparr>memory := mem'\<rparr>)"
proof -
  have "loaded (fnctor (dlfn_function (dlfn m) ! i))"
    using assms by (simp add: machine_wf_def functions_wf_def)
  then obtain a where a: "call (fnctor (dlfn_function (dlfn m) ! i)) = Some (Loaded a)"
    by (auto simp: loaded_def split: option.splits func.splits)
  obtain r mem' where "lib a (params (fnctor (dlfn_function (dlfn m) ! i))) (memory m) = (r, mem')"
    by (cases "lib a (params (fnctor (dlfn_function (dlfn m) ! i))) (memory m)")
  then show ?thesis
    using a assms(1) by (simp add: functor_invoke_def call_func_def machine_wf_def same_tables_def)
qed

section \<open>The commands keep it\<close>

text \<open>After a command: still well formed, valid handles still valid, at most \<open>n\<close> entries of the
  table of copies taken.\<close>

definition keeps :: "nat \<Rightarrow> machine \<Rightarrow> machine \<Rightarrow> bool" where
  "keeps n m m' \<longleftrightarrow>
     machine_wf m' \<and> (handles_ok m \<longrightarrow> handles_ok m') \<and>
     used_result_func m \<le> used_result_func m' \<and> used_result_func m' \<le> used_result_func m + n \<and>
     dlfn_used_function (dlfn m') = dlfn_used_function (dlfn m)"

lemma keepsD: "keeps n m m' \<Longrightarrow> machine_wf m'"
  by (simp add: keeps_def)

lemma keeps_refl: "machine_wf m \<Longrightarrow> keeps n m m"
  by (simp add: keeps_def)

lemma keeps_trans: "keeps n a b \<Longrightarrow> keeps k b c \<Longrightarrow> keeps (n + k) a c"
  by (auto simp: keeps_def)

lemma keeps_mono: "keeps n a b \<Longrightarrow> n \<le> k \<Longrightarrow> keeps k a b"
  by (simp add: keeps_def)

lemma keeps_same: "machine_wf m' \<Longrightarrow> same_tables m m' \<Longrightarrow> keeps n m m'"
  by (simp add: keeps_def same_tables_handles) (simp add: same_tables_def)

lemma keeps_same_globals:
  "machine_wf m \<Longrightarrow> globals_wf g \<Longrightarrow> keeps n m (m\<lparr>globals := g\<rparr>)"
  by (auto simp: keeps_def machine_wf_def handles_ok_def)

lemma tokens_nul_free:
  "tokens len input n = Inr ts \<Longrightarrow> \<forall>t \<in> set ts. nul_free t"
  by (auto simp: tokens_def rbind_eq_Inr split: prod.splits if_splits)

lemma add_result_func_room:
  assumes "machine_wf m" and "copier f" and "used_result_func m < MAX_FUNC"
  obtains m' where "add_result_func f m = (int (used_result_func m), m')" and "keeps 1 m m'"
    and "used_result_func m' = Suc (used_result_func m)"
proof -
  let ?m = "m\<lparr>result_func := (result_func m)[used_result_func m := f],
    used_result_func := used_result_func m + 1\<rparr>"
  have "copier ((result_func m)[used_result_func m := f] ! i)" if "i < Suc (used_result_func m)" for i
    using assms that by (cases "i = used_result_func m") (auto simp: machine_wf_def)
  then have "machine_wf ?m" using assms by (simp add: machine_wf_def)
  moreover have "handles_ok m \<longrightarrow> handles_ok ?m" by (fastforce simp: handles_ok_def)
  ultimately show thesis
    using that [of ?m] assms(3) by (simp add: keeps_def add_result_func_def)
qed

lemma set_load_param_room:
  assumes "machine_wf m" and "pointer_ok p" and "used_result_func m < MAX_FUNC"
  obtains h m' where "set_load_param tok p m = (h, m')" and "keeps 1 m m'"
    and "0 < used_result_func m \<longrightarrow> 0 \<le> h \<and> h < int (used_result_func m')"
proof (cases "global_get tok (globals m)")
  case None
  then show thesis using that [of 0 m] assms(1) by (simp add: set_load_param_def keeps_refl)
next
  case (Some k)
  have k: "k < MAX_VARIABLE"
    using Some assms(1) global_get_Some(1) [of "globals m" tok k] by (fastforce simp: machine_wf_def globals_wf_def)
  let ?m = "set_var k (\<lambda>v. v\<lparr>g_type := ty_int\<rparr>) m"
  have m: "machine_wf ?m" "same_tables m ?m"
    using set_var_wf [OF assms(1) k, of "\<lambda>v. v\<lparr>g_type := ty_int\<rparr>"] by (simp_all add: var_wf_def)
  then have room: "used_result_func ?m < MAX_FUNC" using assms(3) by (simp add: same_tables_def)
  have "copier (copy_functor p (PValue k))" using assms(2) k by (simp add: pointer_ok_def)
  from add_result_func_room [OF m(1) this room] obtain m' where
    "add_result_func (copy_functor p (PValue k)) ?m = (int (used_result_func ?m), m')"
    "keeps 1 ?m m'" "used_result_func m' = Suc (used_result_func ?m)" .
  then show thesis
    using that [of "int (used_result_func ?m)" m'] Some keeps_trans [OF keeps_same [OF m, of 0]]
    by (simp add: set_load_param_def)
qed

lemma create_wf:
  assumes "globals_wf g" and "nul_free n"
  obtains var g' where "global_get_or_create n g = (var, g')" and "globals_wf g'"
    and "\<forall>k. var = Some k \<longrightarrow> k < MAX_VARIABLE"
proof (cases "global_get n g")
  case (Some k)
  then show thesis
    using that [of "Some k" g] assms(1) global_get_Some(1) [OF assms(1) Some]
    by (simp add: global_get_or_create_def globals_wf_def)
next
  case None
  show thesis
  proof (cases "global_used g \<ge> MAX_VARIABLE")
    case True
    then show thesis using None that [of None g] assms(1) by (simp add: global_get_or_create_def)
  next
    case False
    let ?g = "\<lparr>global_var = (global_var g)[global_used g := global_init n], global_used = Suc (global_used g)\<rparr>"
    have "globals_wf ?g"
      using global_get_extend(1) [OF assms(1) _ global_init_wf [OF assms(2)] refl] False by simp
    then show thesis
      using None False that [of "Some (global_used g)" ?g]
      by (simp add: global_get_or_create_def Let_def)
  qed
qed

lemma set_store_param_room:
  assumes "machine_wf m" and "pointer_ok p" and "used_result_func m < MAX_FUNC" and "nul_free tok"
  obtains h m' where "set_store_param tok p m = (h, m')" and "keeps 1 m m'"
    and "0 < used_result_func m \<longrightarrow> 0 \<le> h \<and> h < int (used_result_func m')"
proof -
  have "globals_wf (globals m)" using assms(1) by (simp add: machine_wf_def)
  from create_wf [OF this assms(4)] obtain var g where g: "global_get_or_create tok (globals m) = (var, g)"
    "globals_wf g" "\<forall>k. var = Some k \<longrightarrow> k < MAX_VARIABLE" .
  have m1: "keeps 0 m (m\<lparr>globals := g\<rparr>)" by (rule keeps_same_globals [OF assms(1) g(2)])
  show thesis
  proof (cases var)
    case None
    then show thesis
      using that [of 0 "m\<lparr>globals := g\<rparr>"] keeps_mono [OF m1, of 1] g(1)
      by (simp add: set_store_param_def)
  next
    case (Some k)
    then have k: "k < MAX_VARIABLE" using g(3) by blast
    let ?m = "set_var k (\<lambda>v. v\<lparr>g_type := ty_int\<rparr>) (m\<lparr>globals := g\<rparr>)"
    have m: "machine_wf ?m" "same_tables (m\<lparr>globals := g\<rparr>) ?m"
      using set_var_wf [OF keepsD [OF m1] k, of "\<lambda>v. v\<lparr>g_type := ty_int\<rparr>"]
      by (simp_all add: var_wf_def)
    then have room: "used_result_func ?m < MAX_FUNC" "used_result_func ?m = used_result_func m"
      using assms(3) by (simp_all add: same_tables_def)
    have "copier (copy_functor (PValue k) p)" using assms(2) k by (simp add: pointer_ok_def)
    from add_result_func_room [OF m(1) this room(1)] obtain m' where
      "add_result_func (copy_functor (PValue k) p) ?m = (int (used_result_func ?m), m')"
      "keeps 1 ?m m'" "used_result_func m' = Suc (used_result_func ?m)" .
    then show thesis
      using that [of "int (used_result_func ?m)" m'] Some g(1) room(2)
        keeps_trans [OF keeps_trans [OF m1 keeps_same [OF m, of 0]]]
      by (simp add: set_store_param_def)
  qed
qed

lemma load_handle_keeps:
  assumes "machine_wf m" and "0 < used_result_func m \<Longrightarrow> 0 \<le> h \<and> h < int (used_result_func m)"
  shows "keeps 0 m (m\<lparr>load_param_handle := (load_param_handle m)[fi := (load_param_handle m ! fi)[pj := h]]\<rparr>)"
    (is "keeps 0 m ?m")
proof (cases "fi < length (load_param_handle m)")
  case False
  then show ?thesis using assms(1) by (cases m) (simp add: keeps_refl list_update_beyond linorder_not_less)
next
  case True
  let ?hs = "load_param_handle m ! fi"
  have hs: "?hs \<in> set (load_param_handle m)" using True by simp
  have sub: "set ((load_param_handle m)[fi := ?hs[pj := h]]) \<subseteq> insert (?hs[pj := h]) (set (load_param_handle m))"
    by (rule set_update_subset_insert)
  have "length (?hs[pj := h]) = PARAM_COUNT" using hs assms(1) by (simp add: machine_wf_def)
  then have "machine_wf ?m" using assms(1) sub by (auto simp: machine_wf_def)
  moreover have "handles_ok ?m" if ok: "handles_ok m"
  proof -
    have "0 \<le> h \<and> h < int (used_result_func m)" using assms(2) ok by (simp add: handles_ok_def)
    moreover have "\<forall>x \<in> set ?hs. 0 \<le> x \<and> x < int (used_result_func m)"
      using ok hs by (simp add: handles_ok_def)
    ultimately have "\<forall>x \<in> set (?hs[pj := h]). 0 \<le> x \<and> x < int (used_result_func m)"
      using set_update_subset_insert [of ?hs pj h] by blast
    then show ?thesis using ok sub by (auto simp: handles_ok_def)
  qed
  ultimately show ?thesis by (simp add: keeps_def)
qed

lemma save_handle_keeps:
  assumes "machine_wf m" and "0 < used_result_func m \<Longrightarrow> 0 \<le> h \<and> h < int (used_result_func m)"
  shows "keeps 0 m (m\<lparr>save_result_handle := (save_result_handle m)[fi := h]\<rparr>)" (is "keeps 0 m ?m")
proof -
  have "machine_wf ?m" using assms(1) by (simp add: machine_wf_def)
  moreover have "handles_ok ?m" if "handles_ok m"
    using that assms(2) set_update_subset_insert [of "save_result_handle m" fi h]
    by (auto simp: handles_ok_def)
  ultimately show ?thesis by (simp add: keeps_def)
qed

lemma set_params_keeps:
  assumes "machine_wf m" and "fi < MAX_SYMBOLS" and "\<forall>pj \<in> set pjs. pj < PARAM_COUNT"
    and "used_result_func m + length pjs \<le> MAX_FUNC"
  shows "keeps (length pjs) m (set_params token fi pjs m)"
  using assms
proof (induction pjs arbitrary: m)
  case Nil
  then show ?case by (simp add: keeps_refl)
next
  case (Cons pj pjs)
  show ?case
  proof (cases "pj + 2 \<ge> length token")
    case True
    then show ?thesis using Cons.prems(1) by (simp add: keeps_refl)
  next
    case False
    let ?tok = "token ! (pj + 2)"
    have "pointer_ok (PParam fi pj)" "used_result_func m < MAX_FUNC"
      using Cons.prems(2-4) by (simp_all add: pointer_ok_def)
    from set_load_param_room [OF Cons.prems(1) this, of ?tok] obtain h m1 where
      m1: "set_load_param ?tok (PParam fi pj) m = (h, m1)" "keeps 1 m m1"
      "0 < used_result_func m \<longrightarrow> 0 \<le> h \<and> h < int (used_result_func m1)" .
    define m2 where "m2 = m1\<lparr>load_param_handle := (load_param_handle m1)
        [fi := (load_param_handle m1 ! fi)[pj := h]]\<rparr>"
    define m3 where "m3 = (if h > 0 then m2 else set_param fi pj (snd (set_value_param ?tok)) m2)"
    have h: "0 \<le> h \<and> h < int (used_result_func m1)" if "0 < used_result_func m1"
    proof (cases "0 < used_result_func m")
      case False
      then show ?thesis
        using m1(1) that
        by (auto simp: set_load_param_def add_result_func_def set_var_def split: option.splits if_splits)
    qed (use m1(3) in blast)
    have "keeps 0 m1 m2" unfolding m2_def by (rule load_handle_keeps [OF keepsD [OF m1(2)] h])
    then have 2: "keeps 1 m m2" using keeps_trans [OF m1(2)] by simp
    have "is_bits (snd (set_value_param ?tok))" by (simp add: set_value_param_def)
    then have "keeps 0 m2 m3"
      using set_param_wf [OF keepsD [OF 2] Cons.prems(2)] keeps_refl [OF keepsD [OF 2]]
      by (simp add: m3_def keeps_same)
    then have 3: "keeps 1 m m3" using keeps_trans [OF 2] by simp
    have "used_result_func m3 + length pjs \<le> MAX_FUNC"
      using 3 Cons.prems(4) by (simp add: keeps_def)
    then have "keeps (length pjs) m3 (set_params token fi pjs m3)"
      using Cons.IH [OF keepsD [OF 3] Cons.prems(2)] Cons.prems(3) by simp
    moreover have "set_params token fi (pj # pjs) m = set_params token fi pjs m3"
      using False m1(1) by (simp add: Let_def m3_def m2_def)
    ultimately show ?thesis using keeps_trans [OF 3] by simp
  qed
qed

lemma parameter_from_keeps:
  assumes "machine_wf m" and "\<forall>fi \<in> set fis. fi < MAX_SYMBOLS"
    and "used_result_func m + PARAM_COUNT * length fis \<le> MAX_FUNC"
  shows "keeps (PARAM_COUNT * length fis) m (parameter_from token fis m)"
  using assms
proof (induction fis arbitrary: m)
  case Nil
  then show ?case by (simp add: keeps_refl)
next
  case (Cons fi fis)
  define m1 where "m1 = (if \<not> strcmp_eq (if first_char (token ! 1) = ch CHR ''*'' then name_of m fi else token ! 1)
      (name_of m fi) then m else set_params token fi [0..<PARAM_COUNT] m)"
  have "keeps PARAM_COUNT m (set_params token fi [0..<PARAM_COUNT] m)"
    using set_params_keeps [OF Cons.prems(1), of fi "[0..<PARAM_COUNT]" token] Cons.prems(2,3) by simp
  then have 1: "keeps PARAM_COUNT m m1" using keeps_refl [OF Cons.prems(1)] by (simp add: m1_def)
  then have "used_result_func m1 + PARAM_COUNT * length fis \<le> MAX_FUNC"
    using Cons.prems(3) by (simp add: keeps_def)
  then have "keeps (PARAM_COUNT * length fis) m1 (parameter_from token fis m1)"
    using Cons.IH [OF keepsD [OF 1]] Cons.prems(2) by simp
  moreover have "parameter_from token (fi # fis) m = parameter_from token fis m1"
    by (simp add: Let_def m1_def)
  ultimately show ?case using keeps_trans [OF 1] by simp
qed

lemma token_list:
  assumes "nul_free s"
  obtains ts where "tokens (length s) (s @ 0 # r) (Suc n) = Inr ts" and "\<forall>t \<in> set ts. nul_free t"
  using tokens_split [OF assms, of r n] tokens_nul_free by blast

lemma execute_parameter_keeps:
  assumes "machine_wf m" and "nul_free s"
    and "used_result_func m + PARAM_COUNT * dlfn_used_function (dlfn m) \<le> MAX_FUNC"
  shows "\<exists>m'. execute_parameter (length s) (s @ 0 # r) m = Inr m' \<and>
    keeps (PARAM_COUNT * dlfn_used_function (dlfn m)) m m'"
proof -
  obtain ts where ts: "tokens (length s) (s @ 0 # r) 6 = Inr ts"
    using token_list [OF assms(2), where n = 5 and r = r] by auto
  have "dlfn_used_function (dlfn m) \<le> MAX_SYMBOLS"
    using assms(1) by (simp add: machine_wf_def functions_wf_def dlfn_wf_def)
  then show ?thesis
    using ts parameter_from_keeps [OF assms(1), of "[0..<dlfn_used_function (dlfn m)]" ts] assms(3)
      keeps_refl [OF assms(1)]
    by (simp add: execute_parameter_def)
qed

lemma execute_result_keeps:
  assumes "machine_wf m" and "nul_free s" and "used_result_func m < MAX_FUNC"
  shows "\<exists>m'. execute_result (length s) (s @ 0 # r) m = Inr m' \<and> keeps 1 m m'"
proof -
  obtain ts where ts: "tokens (length s) (s @ 0 # r) 3 = Inr ts" "\<forall>t \<in> set ts. nul_free t"
    using token_list [OF assms(2), where n = 2] by auto
  show ?thesis
  proof (cases "length ts < 3 \<or> dlfn_get_symbol (ts ! 1) (dlfn m) = None")
    case True
    then show ?thesis using ts(1) keeps_refl [OF assms(1)] by (auto simp: execute_result_def)
  next
    case False
    then obtain i where i: "dlfn_get_symbol (ts ! 1) (dlfn m) = Some i" "\<not> length ts < 3" by auto
    have "i < dlfn_used_function (dlfn m)"
      using i(1) by (auto simp: dlfn_get_symbol_def find_Some_iff)
    then have ok: "pointer_ok (PResult i)"
      using assms(1) by (simp add: pointer_ok_def machine_wf_def functions_wf_def dlfn_wf_def)
    have "nul_free (ts ! 2)" using ts(2) i(2) by simp
    from set_store_param_room [OF assms(1) ok assms(3) this] obtain h m1 where
      m1: "set_store_param (ts ! 2) (PResult i) m = (h, m1)" "keeps 1 m m1"
      "0 < used_result_func m \<longrightarrow> 0 \<le> h \<and> h < int (used_result_func m1)" .
    have "0 \<le> h \<and> h < int (used_result_func m1)" if "0 < used_result_func m1"
    proof (cases "0 < used_result_func m")
      case False
      then show ?thesis
        using m1(1) that
        by (auto simp: set_store_param_def add_result_func_def set_var_def Let_def
            split: option.splits if_splits prod.splits)
    qed (use m1(3) in blast)
    from save_handle_keeps [OF keepsD [OF m1(2)] this]
    have "keeps 0 m1 (m1\<lparr>save_result_handle := (save_result_handle m1)[i := h]\<rparr>)" .
    then show ?thesis
      using keeps_trans [OF m1(2)] ts(1) i m1(1) by (simp add: execute_result_def)
  qed
qed

lemma execute_variable_keeps:
  assumes "machine_wf m" and "nul_free s"
  shows "\<exists>m'. execute_variable (length s) (s @ 0 # r) m = Inr m' \<and> keeps 0 m m'"
proof -
  obtain ts where ts: "tokens (length s) (s @ 0 # r) 3 = Inr ts" "\<forall>t \<in> set ts. nul_free t"
    using token_list [OF assms(2), where n = 2] by auto
  show ?thesis
  proof (cases "length ts < 3")
    case True
    then show ?thesis using ts(1) keeps_refl [OF assms(1)] by (simp add: execute_variable_def)
  next
    case False
    then have "nul_free (ts ! 1)" using ts(2) by simp
    moreover have "globals_wf (globals m)" using assms(1) by (simp add: machine_wf_def)
    ultimately obtain var g where g: "global_get_or_create (ts ! 1) (globals m) = (var, g)"
      "globals_wf g" "\<forall>k. var = Some k \<longrightarrow> k < MAX_VARIABLE" using create_wf by blast
    have m1: "keeps 0 m (m\<lparr>globals := g\<rparr>)" by (rule keeps_same_globals [OF assms(1) g(2)])
    show ?thesis
    proof (cases var)
      case None
      then show ?thesis using ts(1) False g(1) m1 by (simp add: execute_variable_def)
    next
      case (Some k)
      obtain ty v where v: "set_value_param (ts ! 2) = (ty, v)" "is_bits v"
        by (cases "set_value_param (ts ! 2)") (auto simp: set_value_param_def split: if_splits)
      let ?m = "set_var k (\<lambda>x. x\<lparr>g_value := v, g_type := ty\<rparr>) (m\<lparr>globals := g\<rparr>)"
      have "machine_wf ?m \<and> same_tables (m\<lparr>globals := g\<rparr>) ?m"
        using set_var_wf [OF keepsD [OF m1], of k "\<lambda>x. x\<lparr>g_value := v, g_type := ty\<rparr>"] g(3) Some v(2)
        by (simp add: var_wf_def)
      then have "keeps 0 m ?m" using keeps_trans [OF m1 keeps_same, of ?m 0] by simp
      then show ?thesis using ts(1) False g(1) Some v(1) by (simp add: execute_variable_def)
    qed
  qed
qed

lemma operand_of_wf:
  assumes "globals_wf (globals m)"
  shows "\<exists>t p. operand_of m tok = (t, p) \<and> operand_wf t p"
proof (cases "global_get tok (globals m)")
  case None
  then show ?thesis by (auto simp: operand_of_def set_value_param_def operand_wf_def types)
next
  case (Some k)
  then show ?thesis
    using global_get_Some(1) [OF assms Some] assms
    by (simp add: operand_of_def operand_wf_def globals_wf_def)
qed

lemma execute_mutation_keeps:
  assumes "machine_wf m" and "nul_free s"
  shows "\<exists>m'. execute_mutation (length s) (s @ 0 # r) m = Inr m' \<and> keeps 0 m m'"
proof -
  obtain ts where ts: "tokens (length s) (s @ 0 # r) 4 = Inr ts" "\<forall>t \<in> set ts. nul_free t"
    using token_list [OF assms(2), where n = 3] by auto
  have g: "globals_wf (globals m)" using assms(1) by (simp add: machine_wf_def)
  show ?thesis
  proof (cases "length ts < 4 \<or> global_get (ts ! 1) (globals m) = None")
    case True
    then show ?thesis using ts(1) keeps_refl [OF assms(1)] by (auto simp: execute_mutation_def)
  next
    case False
    then obtain k where k: "global_get (ts ! 1) (globals m) = Some k" "\<not> length ts < 4" by auto
    then have lt: "k < MAX_VARIABLE"
      using global_get_Some(1) [OF g] g by (fastforce simp: globals_wf_def)
    obtain t p where tp: "operand_of m (ts ! 3) = (t, p)" "operand_wf t p"
      using operand_of_wf [OF g] by blast
    let ?op = "\<lparr>operand = [Addr (PVar k), p], operand_type = [ty_pointer, t], opcode = first_char (ts ! 2)\<rparr>"
    have "operand_wf ty_pointer (Addr (PVar k))" using lt by (simp add: operand_wf_def)
    then have "op_wf ?op" using tp(2) by (auto simp: op_wf_def less_2_cases_iff)
    then have "machine_wf (set_var k (\<lambda>v. v\<lparr>g_op := ?op\<rparr>) m) \<and> same_tables m (set_var k (\<lambda>v. v\<lparr>g_op := ?op\<rparr>) m)"
      using set_var_wf [OF assms(1) lt, of "\<lambda>v. v\<lparr>g_op := ?op\<rparr>"] by (simp add: var_wf_def)
    then show ?thesis
      using ts(1) k tp(1) keeps_same by (simp add: execute_mutation_def)
  qed
qed

lemma execute_condition_total:
  assumes "machine_wf m" and "nul_free s" and "is_bits junk"
  shows "\<exists>x. execute_condition junk (length s) (s @ 0 # r) m = Inr x"
proof -
  obtain ts where ts: "tokens (length s) (s @ 0 # r) 4 = Inr ts"
    using token_list [OF assms(2), where n = 3 and r = r] by auto
  have g: "globals_wf (globals m)" using assms(1) by (simp add: machine_wf_def)
  obtain t0 p0 t1 p1 where p: "operand_of m (ts ! 1) = (t0, p0)" "operand_wf t0 p0"
    "operand_of m (ts ! 3) = (t1, p1)" "operand_wf t1 p1"
    using operand_of_wf [OF g, of "ts ! 1"] operand_of_wf [OF g, of "ts ! 3"] by blast
  let ?op = "\<lparr>operand = [p0, p1], operand_type = [t0, t1], opcode = first_char (ts ! 2)\<rparr>"
  have "op_wf ?op" using p by (auto simp: op_wf_def less_2_cases_iff)
  then obtain t w where "perform_op (global_var (globals m)) ?op junk = Inr (t, Bits w)"
    using perform_op_wf [of ?op "global_var (globals m)" junk] g assms(3) unfolding globals_wf_def by blast
  then show ?thesis using ts p by (simp add: execute_condition_def Let_def)
qed

lemma hash_from_keeps:
  "machine_wf m \<Longrightarrow> \<exists>m'. hash_from is h m = Inr m' \<and> keeps 0 m m'"
proof (induction "is" arbitrary: h m)
  case Nil
  then show ?case by (simp add: keeps_refl)
next
  case (Cons i "is")
  let ?ob = "dlfn_object (dlfn m) ! i"
  obtain h' where h': "memhash_cont h (object_bytes (memory m) ?ob) (bytes ?ob) = Inr h'"
    by (simp add: memhash_cont_def mem_read_Some object_bytes_def)
  let ?m = "m\<lparr>hash_objects := (hash_objects m)[i := h']\<rparr>"
  have "machine_wf ?m" "same_tables m ?m"
    using Cons.prems by (simp_all add: machine_wf_def same_tables_def)
  moreover obtain m' where "hash_from is h' ?m = Inr m'" "keeps 0 ?m m'"
    using Cons.IH [OF \<open>machine_wf ?m\<close>] by blast
  ultimately show ?case
    using h' keeps_trans [of 0 m ?m 0 m'] keeps_same [of ?m m 0] by (simp add: Let_def)
qed

lemma execute_hash_keeps:
  assumes "machine_wf m"
  shows "\<exists>m'. execute_hash m = Inr m' \<and> keeps 0 m m'"
proof -
  obtain h where h: "memhash [] 0 = Inr h" by (simp add: memhash_def mem_read_def)
  let ?m = "m\<lparr>hash_objects := replicate (length (hash_objects m)) 0\<rparr>"
  have m: "machine_wf ?m" "same_tables m ?m"
    using assms by (simp_all add: machine_wf_def same_tables_def)
  obtain m' where "hash_from [0..<dlfn_used_object (dlfn m)] h ?m = Inr m'" "keeps 0 ?m m'"
    using hash_from_keeps [OF m(1)] by blast
  then show ?thesis
    using h keeps_trans [of 0 m ?m 0 m'] keeps_same [OF m, of 0] by (simp add: execute_hash_def)
qed

lemma execute_init_wf:
  assumes "machine_wf m"
  shows "machine_wf (execute_init m)" and "used_result_func (execute_init m) = 1"
    and "(\<forall>h \<in> set (save_result_handle m). h = 0) \<Longrightarrow> handles_ok (execute_init m)"
    and "save_result_handle (execute_init m) = save_result_handle m"
    and "globals (execute_init m) = globals m" and "dlfn (execute_init m) = dlfn m"
proof -
  have "0 < length (result_func m)"
    using assms by (simp add: machine_wf_def MAX_FUNC_def MAX_SYMBOLS_def PARAM_COUNT_def)
  moreover have room: "\<not> MAX_FUNC \<le> 0" by (simp add: MAX_FUNC_def MAX_SYMBOLS_def PARAM_COUNT_def)
  ultimately show "machine_wf (execute_init m)" "used_result_func (execute_init m) = 1"
    "(\<forall>h \<in> set (save_result_handle m). h = 0) \<Longrightarrow> handles_ok (execute_init m)"
    "save_result_handle (execute_init m) = save_result_handle m"
    "globals (execute_init m) = globals m" "dlfn (execute_init m) = dlfn m"
    using assms by (auto simp: execute_init_def add_result_func_def machine_wf_def handles_ok_def)
qed

end
