(* ===== verification/Commands.thy ===== *)
theory Commands
  imports Execute_Safety
begin

text \<open>What the commands of \<^verbatim>\<open>execute.c\<close> do, and how they fail.\<close>

section \<open>A small machine\<close>

text \<open>One function \<open>f\<close>, one integer variable \<open>x\<close> with value 5, and \<open>n\<close> entries of the table of
  copies taken.\<close>

definition demo_functions :: dlfn_t where
  "demo_functions = dlfn_start
     \<lparr>dlfn_function := (replicate MAX_SYMBOLS function_zero)
        [0 := \<lparr>f_name = Some [102], fnctor = functor_init (Some (Loaded 4096))\<rparr>],
      dlfn_used_function := 1\<rparr>"

definition demo :: "nat \<Rightarrow> machine" where
  "demo n = (machine_start (\<lambda>_. 0))
     \<lparr>globals := one_variable ty_int 5 op_zero, dlfn := demo_functions,
      result_func := replicate MAX_FUNC (functor_init (Some Noop)), used_result_func := n\<rparr>"

lemma zero_params: "length (params functor_zero) = PARAM_COUNT" "\<forall>p \<in> set (params functor_zero). is_bits p"
  by (simp_all add: functor_zero_def)

lemma demo_functions_wf: "functions_wf demo_functions"
proof -
  let ?f = "\<lparr>f_name = Some [102], fnctor = functor_init (Some (Loaded 4096))\<rparr>"
  have "set ((replicate MAX_SYMBOLS function_zero)[0 := ?f]) \<subseteq> insert ?f {function_zero}"
    using set_update_subset_insert [of "replicate MAX_SYMBOLS function_zero" 0 ?f] by auto
  then have "\<forall>f \<in> set ((replicate MAX_SYMBOLS function_zero)[0 := ?f]).
      length (params (fnctor f)) = PARAM_COUNT \<and> (\<forall>p \<in> set (params (fnctor f)). is_bits p)"
    using zero_params by (auto simp: function_zero_def functor_init_def)
  then show ?thesis
    by (simp add: functions_wf_def demo_functions_def dlfn_wf_def dlfn_start_def loaded_def functor_init_def)
      (simp add: MAX_SYMBOLS_def)
qed

lemma demo_wf: "n \<le> MAX_FUNC \<Longrightarrow> machine_wf (demo n)"
  using demo_functions_wf one_variable_wf [OF op_zero_wf]
  by (simp add: machine_wf_def demo_def machine_start_def)

lemma demo_names:
  "dlfn_get_symbol [102] demo_functions = Some 0"
  "global_get [120] (one_variable ty_int 5 op_zero) = Some 0"
proof -
  show "dlfn_get_symbol [102] demo_functions = Some 0"
    by (simp add: dlfn_get_symbol_def demo_functions_def MAX_SYMBOLS_def)
  have "cstr (g_name (global_var (one_variable ty_int 5 op_zero) ! 0)) = [120]"
    using name_array(1) [of "[120]"] by simp
  then show "global_get [120] (one_variable ty_int 5 op_zero) = Some 0"
    by (simp add: global_get_def MAX_VARIABLE_NAME_def strncmp_eq_iff)
qed

section \<open>Tokens and constants\<close>

fun join :: "byte list list \<Rightarrow> byte list" where
  "join [] = []"
| "join [t] = t"
| "join (t # u # ts) = t @ 32 # join (u # ts)"

lemma join_Cons: "ts \<noteq> [] \<Longrightarrow> join (t # ts) = t @ 32 # join ts"
  by (cases ts) auto

lemma split_spaces_spec:
  "join (split_spaces (Suc n) s) = s \<and>
   length (split_spaces (Suc n) s) = min (Suc n) (Suc (length (filter (\<lambda>c. c = 32) s))) \<and>
   (\<forall>t \<in> set (butlast (split_spaces (Suc n) s)). 32 \<notin> set t)"
proof (induction "Suc n" s arbitrary: n rule: split_spaces.induct)
  case (4 k c s)
  show ?case
  proof (cases "c = 32")
    case True
    then show ?thesis using 4(1) [OF True] by (simp add: join_Cons)
  next
    case False
    obtain t ts where ts: "split_spaces (Suc (Suc k)) s = t # ts"
      using split_spaces_neq [of "Suc k" s] by (cases "split_spaces (Suc (Suc k)) s") auto
    show ?thesis
      using 4(2) [OF False] False ts by (cases ts) auto
  qed
qed auto

text \<open>C17: A command is cut into tokens at its first spaces and nowhere else: joined by spaces the
  tokens are the command, there are as many as the spaces allow up to the limit, and only the last
  token can contain a space. The command is left in bounds whatever follows it in the buffer.\<close>

theorem command_tokens:
  assumes "nul_free s"
  shows "\<exists>ts. tokens (length s) (s @ 0 # rest) (Suc n) = Inr ts \<and> join ts = s \<and>
    length ts = min (Suc n) (Suc (length (filter (\<lambda>c. c = 32) s))) \<and>
    (\<forall>t \<in> set (butlast ts). 32 \<notin> set t)"
  using tokens_split [OF assms, of rest n] split_spaces_spec [of n s] by blast

theorem command_tokens_witness:
  "\<exists>ts. tokens (length (str ''p f 1 2'')) (str ''p f 1 2'' @ 0 # [7]) (Suc 2) = Inr ts \<and>
    join ts = str ''p f 1 2''"
proof -
  have "nul_free (str ''p f 1 2'')" by (simp add: ch_def)
  from command_tokens [OF this, of "[7]" 2] show ?thesis by blast
qed

text \<open>C18: An integer in decimal notation is read as itself, over the whole range of a 64-bit
  \<open>long\<close>, and gets the integer type.\<close>

theorem decimal_integers_read_back:
  assumes "- (2 ^ 63) \<le> i" and "i < 2 ^ 63"
  shows "set_value_param (typed_int i) = (ty_int, Bits (word_of_int i))"
proof -
  have "c \<notin> {46, 101}" if "c \<in> set (decimal n)" for c n
    using decimal_digits [OF that] digit_char(3) by auto
  then have "ch CHR ''.'' \<notin> set (typed_int i)" "ch CHR ''e'' \<notin> set (typed_int i)"
    by (auto simp: typed_int_def ch_def)
  then show ?thesis using strtol_decimal [OF assms] by (simp add: set_value_param_def)
qed

theorem decimal_integers_read_back_witness:
  "set_value_param (str ''-120'') = (ty_int, Bits (- 120))"
proof -
  have "typed_int (- 120) = str ''-120''"
    by (simp add: typed_int_def decimal.simps ch_def)
  then show ?thesis using decimal_integers_read_back [of "- 120"] by simp
qed

text \<open>The letter \<open>e\<close> makes a double: of two neighbouring hexadecimal constants one is an integer and
  the other a floating-point number, with other bits.\<close>

theorem hex_constants_differ:
  "set_value_param (str ''0xfd'') = (ty_int, Bits 253) \<and>
   set_value_param (str ''0xfe'') = (ty_double, Bits 0x406FC00000000000)"
proof
  show "set_value_param (str ''0xfd'') = (ty_int, Bits 253)"
    by (simp add: set_value_param_def strtol_def ch_def isspace_def skip_sign_def hex_prefix_def
        is_digit_def digit_value_def number_def)
  have "strtod [48, 120, 102, 101] = d_scaled False 254 0"
    by (simp add: strtod_def ch_def isspace_def skip_sign_def hex_prefix_def mantissa_def exponent_def
        is_digit_def digit_value_def number_def lower_def)
  also have "\<dots> = 0x406FC00000000000" by (simp add: fp_eval)
  finally show "set_value_param (str ''0xfe'') = (ty_double, Bits 0x406FC00000000000)"
    by (simp add: set_value_param_def ch_def)
qed

section \<open>How they fail\<close>

text \<open>C21: When the table of copies is full, binding a result is not refused: the handle stored is -1,
  and the next frame that calls the function reads in front of the table.\<close>

theorem full_table_corrupts:
  assumes "machine_wf m" and "used_result_func m = MAX_FUNC"
    and "tokens len input 3 = Inr [t0, f, v]" and "dlfn_get_symbol f (dlfn m) = Some i"
    and "global_get v (globals m) = Some k"
  shows "\<exists>m'. execute_result len input m = Inr m' \<and> save_result_handle m' ! i = - 1 \<and>
    (\<forall>lib m''. save_result_handle m'' = save_result_handle m' \<longrightarrow>
      call_store_result lib i m'' = Inl OutOfBounds)"
proof -
  have "i < dlfn_used_function (dlfn m)" using assms(4) by (auto simp: dlfn_get_symbol_def find_Some_iff)
  then have i: "i < length (save_result_handle m)"
    using assms(1) by (simp add: machine_wf_def functions_wf_def dlfn_wf_def)
  let ?m = "(set_var k (\<lambda>v. v\<lparr>g_type := ty_int\<rparr>) m)\<lparr>save_result_handle := (save_result_handle m)[i := - 1]\<rparr>"
  have "execute_result len input m = Inr ?m"
    using assms(2-5)
    by (simp add: execute_result_def set_store_param_def global_get_or_create_def add_result_func_def
        set_var_def)
  then show ?thesis using i by (simp add: call_store_result_def invoke_handle_def)
qed

theorem full_table_corrupts_witness:
  "\<exists>m'. execute_result 5 (str ''r f x'' @ [0]) (demo MAX_FUNC) = Inr m' \<and>
    call_store_result (\<lambda>_ _ mem. (0, mem)) 0 m' = Inl OutOfBounds"
proof -
  have "nul_free (str ''r f x'')" by (simp add: ch_def)
  moreover have "split_spaces (Suc (Suc (Suc 0))) (str ''r f x'') = [[114], [102], [120]]"
    by (simp add: ch_def)
  moreover have "Suc (Suc (Suc 0)) = 3" "length (str ''r f x'') = 5" by simp_all
  ultimately have "tokens 5 (str ''r f x'' @ [0]) 3 = Inr [[114], [102], [120]]"
    using tokens_split [of "str ''r f x''" "[]" "Suc (Suc 0)"] by metis
  moreover have "dlfn (demo MAX_FUNC) = demo_functions" "used_result_func (demo MAX_FUNC) = MAX_FUNC"
    "globals (demo MAX_FUNC) = one_variable ty_int 5 op_zero"
    by (simp_all add: demo_def)
  ultimately show ?thesis
    using full_table_corrupts [OF demo_wf [OF order_refl], of 5 "str ''r f x'' @ [0]" "[114]" "[102]" "[120]" 0 0]
      demo_names by metis
qed

text \<open>C20: \<open>execute_init\<close> clears the table of copies but not the handles of the results: after a
  reload, the first call of a function whose result was bound goes through a null pointer.\<close>

theorem stale_handle_faults:
  assumes "machine_wf m" and "i < MAX_SYMBOLS" and "save_result_handle m ! i = int k"
    and "0 < k" and "k < MAX_FUNC"
    and "save_result_handle m' = save_result_handle (execute_init m)"
    and "result_func m' = result_func (execute_init m)"
  shows "call_store_result lib i m' = Inl NullDeref"
proof -
  have len: "length (result_func m) = MAX_FUNC" using assms(1) by (simp add: machine_wf_def)
  have rf: "result_func m' = (replicate MAX_FUNC functor_zero)[0 := functor_init (Some Noop)]"
    using len assms(4,5,7) by (simp add: execute_init_def add_result_func_def)
  have "result_func m' ! k = functor_zero" "length (result_func m') = MAX_FUNC"
    using assms(4,5) by (simp_all add: rf)
  moreover have "save_result_handle m' ! i = int k"
    using assms(3,6) execute_init_wf(4) [OF assms(1)] by simp
  ultimately show ?thesis
    using assms(5) by (simp add: call_store_result_def invoke_handle_def functor_invoke_def functor_zero_def)
qed

theorem stale_handle_faults_witness:
  "call_store_result (\<lambda>_ _ mem. (0, mem)) 0
     (execute_init ((demo 5)\<lparr>save_result_handle := (replicate MAX_SYMBOLS 0)[0 := 3]\<rparr>)) = Inl NullDeref"
proof -
  let ?m = "(demo 5)\<lparr>save_result_handle := (replicate MAX_SYMBOLS 0)[0 := 3]\<rparr>"
  have c: "0 < MAX_SYMBOLS" "(3 :: nat) < MAX_FUNC" "5 \<le> MAX_FUNC"
    by (simp_all add: MAX_FUNC_def MAX_SYMBOLS_def PARAM_COUNT_def)
  have "machine_wf ?m" using demo_wf [OF c(3)] by (simp add: machine_wf_def)
  moreover have "save_result_handle ?m ! 0 = int 3" using c(1) by simp
  ultimately show ?thesis
    using stale_handle_faults [of ?m 0 3] c by simp
qed

text \<open>Asking for an object that does not exist dereferences a null pointer; asking for one that
  exists is safe.\<close>

theorem object_must_exist:
  assumes "tokens len input 2 = Inr [t0, name]"
  shows "execute_object len input m =
    (if \<exists>i < dlfn_used_object (dlfn m). o_name (dlfn_object (dlfn m) ! i) = Some name
     then Inr () else Inl NullDeref)"
proof (cases "dlfn_get_object name (dlfn m)")
  case None
  then have "\<not> (\<exists>i < dlfn_used_object (dlfn m). o_name (dlfn_object (dlfn m) ! i) = Some name)"
    by (auto simp: dlfn_get_object_def find_None_iff)
  then show ?thesis using None assms by (simp add: execute_object_def)
next
  case (Some i)
  then have "i < dlfn_used_object (dlfn m)" "o_name (dlfn_object (dlfn m) ! i) = Some name"
    by (auto simp: dlfn_get_object_def find_Some_iff split: option.splits)
  then have "\<exists>i < dlfn_used_object (dlfn m). o_name (dlfn_object (dlfn m) ! i) = Some name" by blast
  then show ?thesis using Some assms by (simp add: execute_object_def)
qed

theorem object_must_exist_witness:
  "execute_object 3 (str ''o x'' @ [0]) (demo 1) = Inl NullDeref"
proof -
  have "nul_free (str ''o x'')" by (simp add: ch_def)
  moreover have "split_spaces (Suc (Suc 0)) (str ''o x'') = [[111], [120]]"
    by (simp add: ch_def)
  moreover have "Suc (Suc 0) = 2" "length (str ''o x'') = 3" by simp_all
  ultimately have "tokens 3 (str ''o x'' @ [0]) 2 = Inr [[111], [120]]"
    using tokens_split [of "str ''o x''" "[]" "Suc 0"] by metis
  from object_must_exist [OF this, of "demo 1"] show ?thesis
    by (simp add: demo_def demo_functions_def dlfn_start_def)
qed

lemma benchmark_threshold: "\<not> d_less (d_of_int 10000000) (stats_max (stats_init doubles))"
proof -
  have "dval (d_of_int 10000000) = Fin False 5368709120000000 (- 29)"
    by (simp add: d_of_int_def fp_eval)
  moreover have "dval (stats_max (stats_init doubles)) = Fin False 0 (- 1074)"
    by (simp add: stats_max_def stats_init_def doubles_def d_of_int_def fp_eval)
  ultimately show ?thesis by (simp add: d_less_def signed_mant_def Let_def)
qed

text \<open>C39: With no function loaded the benchmark never passes its threshold and multiplies its call
  count until the \<open>int\<close> overflows.\<close>

theorem benchmark_overflow:
  assumes "dlfn_used_function (dlfn m) = 0"
  shows "execute_benchmark lib rd t m = Inl SignedOverflow"
proof -
  have "bench_loop lib rd h c (stats_init doubles) t m = Inl SignedOverflow"
    if "0 < h" "10 ^ h * c \<ge> 2 ^ 31" for h c
    using that
  proof (induction h arbitrary: c)
    case (Suc h)
    show ?case
    proof (cases "c * 10 \<ge> 2 ^ 31")
      case True
      then show ?thesis using assms benchmark_threshold by simp
    next
      case False
      then have "0 < h" using Suc.prems(2) by (cases h) simp_all
      then have "bench_loop lib rd h (c * 10) (stats_init doubles) t m = Inl SignedOverflow"
        using Suc.IH Suc.prems(2) by (simp add: mult.commute mult.left_commute)
      then show ?thesis using assms benchmark_threshold False by simp
    qed
  qed simp
  from this [of 10 1] show ?thesis by (simp add: execute_benchmark_def)
qed

theorem benchmark_overflow_witness:
  "execute_benchmark (\<lambda>_ _ mem. (0, mem)) (\<lambda>_. 0) 0 (machine_start (\<lambda>_. 0)) = Inl SignedOverflow"
  by (rule benchmark_overflow) (simp add: machine_start_def dlfn_start_def)

end
