(* ===== verification/Record_Log.thy ===== *)
theory Record_Log
  imports CMacro
begin

unbundle bit_operations_syntax

text \<open>
  \<^verbatim>\<open>record.c\<close>: a growing buffer of NUL-terminated commands with separate read and write
  offsets. First the operations as the file has them, then the contract its callers use (an
  append-only log with a reader) as a locale, and its interpretation on the operations.
\<close>

section \<open>State\<close>

record record_t =
  rbuf :: "byte list"
  alloc_bytes :: u32
  used_bytes :: u32

record offset_t =
  byte_count :: u32
  command_count :: u32

record rw_t =
  rw_rec :: "record_t option"
  rw_read :: offset_t
  rw_write :: offset_t

definition offset_zero :: offset_t where
  "offset_zero = \<lparr>byte_count = 0, command_count = 0\<rparr>"

text \<open>A \<open>RecordEvent_t\<close> gets the length and the memory its string pointer points to.\<close>

type_synonym 's record_event = "u64 \<Rightarrow> byte list \<Rightarrow> 's \<Rightarrow> 's res"

section \<open>Operations\<close>

text \<open>
  Neither allocation of \<open>record_alloc\<close> is checked: a failure of the first is a null
  dereference, a failure of the second leaves a null (empty) buffer behind.
\<close>

definition sizeof_record :: nat where
  "sizeof_record = 16"

definition record_alloc :: "allocator \<Rightarrow> record_t res" where
  "record_alloc alc =
     (case malloc alc sizeof_record of
        None \<Rightarrow> Inl NullDeref
      | Some _ \<Rightarrow>
          Inr \<lparr>rbuf = (case malloc alc (4 * 1024) of None \<Rightarrow> [] | Some b \<Rightarrow> b),
               alloc_bytes = 4 * 1024, used_bytes = 0\<rparr>)"

text \<open>The \<open>int\<close> argument is given by its 32 bits and read as signed.\<close>

definition record_realloc :: "allocator \<Rightarrow> record_t \<Rightarrow> u32 \<Rightarrow> bool \<times> record_t" where
  "record_realloc alc r bytes_needed =
     (if sint bytes_needed \<le> 0 then (True, r)
      else (case realloc alc (rbuf r) (unat (alloc_bytes r * 2)) of
              None \<Rightarrow> (False, r)
            | Some new_buf \<Rightarrow>
                (True, r\<lparr>rbuf := new_buf, alloc_bytes := alloc_bytes r * 2\<rparr>)))"

definition record_append ::
  "allocator \<Rightarrow> u64 \<Rightarrow> byte list \<Rightarrow> record_t \<Rightarrow> offset_t \<Rightarrow> (record_t \<times> offset_t) res"
where
  "record_append alc len input r off =
     (let byte_offset = byte_count off;
          needed = (ucast byte_offset :: u64) + len + 1;
          (ok, r1) = record_realloc alc r (ucast (needed - ucast (alloc_bytes r)))
      in if \<not> ok then Inl CrashCall
         else
           let used = (ucast (used_bytes r1) :: u64);
               r2 = r1\<lparr>used_bytes := ucast (c_max used needed)\<rparr>
           in rbind (opt_res OutOfBounds (mem_read 0 (unat len) input)) (\<lambda>src.
              rbind (opt_res OutOfBounds (mem_write (unat byte_offset) src (rbuf r2))) (\<lambda>b1.
              rbind (opt_res OutOfBounds
                       (mem_write (unat ((ucast byte_offset :: u64) + len)) [0] b1)) (\<lambda>b2.
              Inr (r2\<lparr>rbuf := b2\<rparr>,
                   \<lparr>byte_count = ucast ((ucast (byte_count off) :: u64) + (len + 1)),
                    command_count = command_count off + 1\<rparr>)))))"

definition record_can_playback :: "record_t \<Rightarrow> offset_t \<Rightarrow> bool" where
  "record_can_playback r off = (\<not> byte_count off \<ge> used_bytes r)"

definition record_peek :: "record_t \<Rightarrow> offset_t \<Rightarrow> byte list option" where
  "record_peek r off =
     (if byte_count off \<ge> used_bytes r then None
      else Some (drop (unat (byte_count off)) (rbuf r)))"

definition advance :: "offset_t \<Rightarrow> u64 \<Rightarrow> offset_t" where
  "advance off len =
     \<lparr>byte_count = ucast ((ucast (byte_count off) :: u64) + (len + 1)),
      command_count = command_count off + 1\<rparr>"

definition record_playback ::
  "record_t \<Rightarrow> 's record_event \<Rightarrow> offset_t \<Rightarrow> 's \<Rightarrow> (bool \<times> offset_t \<times> 's) res"
where
  "record_playback r handler off s =
     (if byte_count off \<ge> used_bytes r then Inr (False, off, s)
      else let p = drop (unat (byte_count off)) (rbuf r) in
        rbind (opt_res OutOfBounds (strlen p)) (\<lambda>n.
        rbind (handler (of_nat n) p s) (\<lambda>s'.
        Inr (True, advance off (of_nat n), s'))))"

text \<open>\<open>record_read\<close> returns the pointer (\<open>None\<close> is null), the length and the new offset.\<close>

definition record_read ::
  "record_t \<Rightarrow> offset_t \<Rightarrow> (byte list option \<times> u64 \<times> offset_t) res"
where
  "record_read r off =
     (if byte_count off \<ge> used_bytes r then Inr (None, 0, off)
      else let cmd = drop (unat (byte_count off)) (rbuf r) in
        rbind (opt_res OutOfBounds (strlen cmd)) (\<lambda>n.
        Inr (Some cmd, of_nat n, advance off (of_nat n))))"


text \<open>
  The loop of \<open>record_playback_all\<close>; \<open>i\<close> is an \<open>int\<close> given by its bits: the loop
  test compares it as unsigned, the pointer arithmetic uses it as signed.
\<close>

fun playback_loop :: "nat \<Rightarrow> record_t \<Rightarrow> 's record_event \<Rightarrow> u32 \<Rightarrow> 's \<Rightarrow> 's res" where
  "playback_loop 0 r handler i s = Inl Diverge"
| "playback_loop (Suc fuel) r handler i s =
     (if i < used_bytes r then
        (if sint i < 0 then Inl OutOfBounds
         else let p = drop (unat i) (rbuf r) in
           rbind (opt_res OutOfBounds (strlen p)) (\<lambda>n.
           rbind (handler (of_nat n) p s) (\<lambda>s'.
           playback_loop fuel r handler (ucast ((scast i :: u64) + (of_nat n + 1))) s')))
      else Inr s)"

definition record_playback_all :: "record_t \<Rightarrow> 's record_event \<Rightarrow> 's \<Rightarrow> 's res" where
  "record_playback_all r handler s =
     playback_loop (Suc (unat (used_bytes r))) r handler 0 s"

text \<open>The file's contents after \<open>record_to_disk\<close>; \<open>None\<close> when it cannot be opened.\<close>

definition record_to_disk :: "bool \<Rightarrow> record_t \<Rightarrow> byte list option res" where
  "record_to_disk opened r =
     (if \<not> opened then Inr None
      else rbind (opt_res OutOfBounds (mem_read 0 (unat (used_bytes r)) (rbuf r))) (\<lambda>bs.
           Inr (Some bs)))"

definition record_length :: "record_t \<Rightarrow> u64" where
  "record_length r = ucast (used_bytes r)"

fun memcmp :: "byte list \<Rightarrow> byte list \<Rightarrow> int" where
  "memcmp (a # s) (b # t) = (if a = b then memcmp s t else if a < b then - 1 else 1)"
| "memcmp _ _ = 0"

definition record_compare :: "record_t \<Rightarrow> record_t \<Rightarrow> int res" where
  "record_compare lhs rhs =
     (let n = unat (c_min (used_bytes lhs) (used_bytes rhs))
      in rbind (opt_res OutOfBounds (mem_read 0 n (rbuf lhs))) (\<lambda>a.
         rbind (opt_res OutOfBounds (mem_read 0 n (rbuf rhs))) (\<lambda>b. Inr (memcmp a b))))"

definition record_clone :: "allocator \<Rightarrow> record_t \<Rightarrow> record_t res" where
  "record_clone alc r =
     (case malloc alc sizeof_record of
        None \<Rightarrow> Inl NullDeref
      | Some _ \<Rightarrow>
          let buf = (case malloc alc (unat (alloc_bytes r)) of None \<Rightarrow> [] | Some b \<Rightarrow> b) in
          rbind (opt_res OutOfBounds (mem_read 0 (unat (used_bytes r)) (rbuf r))) (\<lambda>src.
          rbind (opt_res OutOfBounds (mem_write 0 src buf)) (\<lambda>b.
          Inr (r\<lparr>rbuf := b\<rparr>))))"

definition record_reset :: "record_t \<Rightarrow> record_t" where
  "record_reset r = r\<lparr>used_bytes := 0\<rparr>"

text \<open>The blocks \<open>record_free\<close> hands back to the allocator, in order.\<close>

datatype freed = FreedBuf "byte list" | FreedRecord

definition record_free :: "record_t option \<Rightarrow> freed list" where
  "record_free r = (case r of None \<Rightarrow> [] | Some x \<Rightarrow> [FreedBuf (rbuf x), FreedRecord])"

text \<open>
  The two call patterns of the callers on a \<open>RecordRW_t\<close>: append at the write offset
  (\<^verbatim>\<open>main.c\<close>, \<^verbatim>\<open>connection.c\<close>) and read at the read offset.
\<close>

definition rw_append :: "allocator \<Rightarrow> u64 \<Rightarrow> byte list \<Rightarrow> rw_t \<Rightarrow> rw_t res" where
  "rw_append alc len input rw =
     (case rw_rec rw of
        None \<Rightarrow> Inl NullDeref
      | Some r \<Rightarrow>
          rbind (record_append alc len input r (rw_write rw)) (\<lambda>(r', off').
          Inr (rw\<lparr>rw_rec := Some r', rw_write := off'\<rparr>)))"

definition rw_fetch :: "rw_t \<Rightarrow> (byte list option \<times> u64 \<times> rw_t) res" where
  "rw_fetch rw =
     (case rw_rec rw of
        None \<Rightarrow> Inl NullDeref
      | Some r \<Rightarrow>
          rbind (record_read r (rw_read rw)) (\<lambda>(cmd, n, off').
          Inr (cmd, n, rw\<lparr>rw_read := off'\<rparr>)))"

section \<open>Invariant and abstraction\<close>

text \<open>
  A record is well formed when its buffer has the allocated size, which never shrinks below
  the first 4096 bytes and covers the used bytes. It stores the blocks \<open>ms\<close> when its used
  bytes are exactly their encoding, and holds them when none contains the terminator.
\<close>

definition record_wf :: "record_t \<Rightarrow> bool" where
  "record_wf r \<longleftrightarrow>
     length (rbuf r) = unat (alloc_bytes r) \<and> used_bytes r \<le> alloc_bytes r \<and>
     4096 \<le> alloc_bytes r \<and> alloc_bytes r \<le> 2 ^ 31"

definition stores :: "record_t \<Rightarrow> byte list list \<Rightarrow> bool" where
  "stores r ms \<longleftrightarrow> record_wf r \<and> take (unat (used_bytes r)) (rbuf r) = encode 0 ms"

definition holds :: "record_t \<Rightarrow> byte list list \<Rightarrow> bool" where
  "holds r ms \<longleftrightarrow> stores r ms \<and> (\<forall>m \<in> set ms. nul_free m)"

definition offset_at :: "offset_t \<Rightarrow> byte list list \<Rightarrow> bool" where
  "offset_at off ms \<longleftrightarrow>
     unat (byte_count off) = length (encode 0 ms) \<and> command_count off = of_nat (length ms)"

definition log_limit :: nat where
  "log_limit = 2 ^ 30"

lemma holds_stores: "holds r ms \<Longrightarrow> stores r ms"
  by (simp add: holds_def)

lemma stores_used:
  assumes "stores r ms"
  shows "unat (used_bytes r) = length (encode 0 ms)"
proof -
  have "unat (used_bytes r) \<le> length (rbuf r)"
    using assms by (auto simp: stores_def record_wf_def word_le_nat_alt)
  moreover have "length (take (unat (used_bytes r)) (rbuf r)) = length (encode 0 ms)"
    using assms by (simp add: stores_def)
  ultimately show ?thesis by simp
qed

lemma stores_drop:
  assumes "stores r (ms @ ns)"
  shows "drop (length (encode 0 ms)) (rbuf r) =
         encode 0 ns @ drop (length (encode 0 (ms @ ns))) (rbuf r)"
proof -
  have "rbuf r = encode 0 (ms @ ns) @ drop (length (encode 0 (ms @ ns))) (rbuf r)"
    using assms stores_used [OF assms] by (metis append_take_drop_id stores_def)
  then show ?thesis
    by (metis append_assoc append_eq_conv_conj encode_simps(3))
qed

lemma record_alloc_holds:
  assumes "record_alloc alc = Inr r" and "alc 4096 \<noteq> None"
  shows "holds r []"
  using assms
  by (auto simp: record_alloc_def holds_def stores_def record_wf_def word_le_nat_alt
        sizeof_record_def malloc_def split: option.splits)

lemma offset_zero_at [simp]: "offset_at offset_zero []"
  by (simp add: offset_at_def offset_zero_def)

text \<open>The length and the offsets a read or an append leaves.\<close>

lemma offset_advance:
  assumes "offset_at off ms" and "length (encode 0 ms) + length m < log_limit"
  shows "offset_at (advance off (of_nat (length m))) (ms @ [m])"
proof -
  let ?b = "ucast (byte_count off) :: u64"
  have n: "unat (of_nat (length m) + 1 :: u64) = length m + 1"
    using assms by (simp add: unat_of_nat64 unat_add_small log_limit_def)
  have "unat (?b + (of_nat (length m) + 1)) = length (encode 0 ms) + (length m + 1)"
    using assms n by (subst unat_add_small) (simp_all add: offset_at_def log_limit_def)
  then show ?thesis
    using assms by (simp add: offset_at_def advance_def unat_ucast_down32 log_limit_def)
qed

section \<open>Reading\<close>

lemma offset_lt_used:
  assumes "stores r (ms @ m # ns)" and "offset_at off ms"
  shows "byte_count off < used_bytes r"
  using assms(2) stores_used [OF assms(1)] by (simp add: word_less_nat_alt offset_at_def)

lemma record_read_at:
  assumes "holds r (ms @ m # ns)" and "offset_at off ms"
  shows "\<exists>cmd. record_read r off =
       Inr (Some cmd, of_nat (length m), advance off (of_nat (length m))) \<and>
     cstr cmd = m \<and> take (length m) cmd = m \<and> (\<exists>rest. cmd = m @ 0 # rest)"
proof -
  have s: "stores r (ms @ m # ns)" and free: "nul_free m"
    using assms(1) by (simp_all add: holds_def)
  obtain rest where "drop (unat (byte_count off)) (rbuf r) = m @ 0 # rest"
    using stores_drop [OF s] assms(2) by (simp add: offset_at_def)
  then show ?thesis
    using offset_lt_used [OF s assms(2)] free by (auto simp: record_read_def Let_def)
qed

lemma record_read_end:
  assumes "stores r ms" and "offset_at off ms"
  shows "record_read r off = Inr (None, 0, off)"
  using assms stores_used [OF assms(1)]
  by (auto simp: record_read_def offset_at_def word_le_nat_alt)

section \<open>Appending\<close>

lemma signed_take_bit_difference:
  "x \<le> 2 ^ 30 \<Longrightarrow> y \<le> 2 ^ 31 \<Longrightarrow> signed_take_bit 31 (int x - int y) = int x - int y"
  by (intro signed_take_bit_int_eq_self) simp_all

lemma int_difference:
  fixes a :: u32
  assumes "n \<le> 2 ^ 30" and "a \<le> 2 ^ 31"
  shows "sint (ucast ((of_nat n :: u64) - ucast a) :: u32) \<le> 0 \<longleftrightarrow> n \<le> unat a"
proof -
  have "(of_nat n :: u64) - ucast a = word_of_int (int n - uint a)"
    unfolding ucast_eq [of a] of_int_diff of_int_of_nat_eq ..
  moreover have "is_down (ucast :: u64 \<Rightarrow> u32)" by (simp add: is_down)
  ultimately have w: "(ucast ((of_nat n :: u64) - ucast a) :: u32) = word_of_int (int n - uint a)"
    by (simp only: ucast_down_wi)
  have "unat a \<le> 2 ^ 31" using assms(2) by (simp add: word_le_nat_alt)
  then have "signed_take_bit 31 (int n - int (unat a)) = int n - int (unat a)"
    using assms(1) by (intro signed_take_bit_difference)
  then have "sint (word_of_int (int n - uint a) :: u32) = int n - int (unat a)"
    unfolding signed_of_int by simp
  then show ?thesis
    unfolding w by linarith
qed

lemma record_realloc_room:
  assumes wf: "record_wf r" and n: "n \<le> 2 ^ 30" "n \<le> unat (used_bytes r) + 4096"
    and alc: "\<And>k. alc k \<noteq> None"
  obtains r1 where
    "record_realloc alc r (ucast ((of_nat n :: u64) - ucast (alloc_bytes r))) = (True, r1)"
    and "record_wf r1" and "n \<le> length (rbuf r1)" and "used_bytes r1 = used_bytes r"
    and "take (unat (used_bytes r)) (rbuf r1) = take (unat (used_bytes r)) (rbuf r)"
proof -
  let ?a = "unat (alloc_bytes r)"
  have a: "4096 \<le> ?a" "unat (used_bytes r) \<le> ?a" "?a \<le> 2 ^ 31" "length (rbuf r) = ?a"
    using wf by (simp_all add: record_wf_def word_le_nat_alt)
  have s: "sint (ucast ((of_nat n :: u64) - ucast (alloc_bytes r)) :: u32) \<le> 0 \<longleftrightarrow> n \<le> ?a"
    using n wf by (intro int_difference) (simp_all add: record_wf_def)
  show thesis
  proof (cases "n \<le> ?a")
    case True
    with s a wf show thesis
      by (intro that [of r]) (simp_all add: record_realloc_def)
  next
    case False
    then have d: "unat (alloc_bytes r * 2) = ?a * 2"
      using n by (simp add: unat_word_ariths)
    obtain nb where nb: "realloc alc (rbuf r) (?a * 2) = Some nb"
      using alc [of "?a * 2"] by (auto simp: realloc_def)
    have l: "length nb = ?a * 2" "take ?a nb = rbuf r"
      using realloc_grow [OF nb] a by simp_all
    have "take (unat (used_bytes r)) nb = take (unat (used_bytes r)) (rbuf r)"
      using a(2) l(2) by (metis min.absorb1 take_take)
    with False s d nb l a n wf show thesis
      by (intro that [of "r\<lparr>rbuf := nb, alloc_bytes := alloc_bytes r * 2\<rparr>"])
        (simp_all add: record_realloc_def record_wf_def word_le_nat_alt)
  qed
qed
lemma needed_bytes:
  assumes "offset_at off ms" and "length (encode 0 ms) + k < 2 ^ 31"
  shows "(ucast (byte_count off) :: u64) + of_nat k = of_nat (length (encode 0 ms) + k)"
proof -
  have "(ucast (byte_count off) :: u64) = of_nat (length (encode 0 ms))"
    using assms(1) by (metis of_nat_unat offset_at_def unat_ucast_up32)
  then show ?thesis by simp
qed

lemma record_append_stores:
  assumes r: "stores r ms" and off: "offset_at off ms"
    and m: "length m < 4096"
    and room: "length (encode 0 ms) + 4096 \<le> log_limit"
    and alc: "\<And>k. alc k \<noteq> None"
  obtains r' where
    "record_append alc (of_nat (length m)) (m @ rest) r off =
       Inr (r', advance off (of_nat (length m)))"
    and "stores r' (ms @ [m])" and "offset_at (advance off (of_nat (length m))) (ms @ [m])"
proof -
  let ?e = "encode 0 ms" and ?l = "length m"
  let ?n = "length ?e + ?l + 1"
  have used: "unat (used_bytes r) = length ?e" using r by (rule stores_used)
  have bo: "unat (byte_count off) = length ?e" using off by (simp add: offset_at_def)
  have needed: "(ucast (byte_count off) :: u64) + of_nat ?l + 1 = of_nat ?n"
    using needed_bytes [OF off, of "?l + 1"] m room by (simp add: log_limit_def ac_simps)
  obtain r1 where r1: "record_realloc alc r (ucast ((of_nat ?n :: u64) - ucast (alloc_bytes r))) = (True, r1)"
    "record_wf r1" "?n \<le> length (rbuf r1)" "used_bytes r1 = used_bytes r"
    "take (length ?e) (rbuf r1) = ?e"
  proof (rule record_realloc_room [of r ?n alc])
    show "record_wf r" using r by (simp add: stores_def)
    show "?n \<le> 2 ^ 30" "?n \<le> unat (used_bytes r) + 4096"
      using m room used by (simp_all add: log_limit_def)
    show "alc k \<noteq> None" for k by (rule alc)
  qed (use r used in \<open>auto simp: stores_def\<close>)
  let ?b = "encode 0 (ms @ [m]) @ drop ?n (rbuf r1)"
  let ?r = "r1\<lparr>used_bytes := ucast (of_nat ?n :: u64), rbuf := ?b\<rparr>"
  have small: "?n < 2 ^ 31" using m room by (simp add: log_limit_def)
  have l: "unat (of_nat ?l :: u64) = ?l" using m by (intro unat_of_nat64) simp
  have n: "unat (of_nat ?n :: u64) = ?n"
    by (rule unat_of_nat64) (use small in simp)
  then have n32: "unat (ucast (of_nat ?n :: u64) :: u32) = ?n"
    using small by (simp add: unat_ucast_down32 del: of_nat_add)
  have w: "unat ((ucast (byte_count off) :: u64) + of_nat ?l) = length ?e + ?l"
    using small by (subst needed_bytes [OF off], simp) (rule unat_of_nat64, simp)
  have "\<not> (of_nat ?n :: u64) < ucast (used_bytes r1)"
    using n used r1(4) by (simp add: word_less_nat_alt del: of_nat_add)
  moreover have "mem_write (length ?e) m (rbuf r1) = Some (?e @ m @ drop (length ?e + ?l) (rbuf r1))"
    using r1(3,5) by (simp add: mem_write_Some)
  moreover have "mem_write (length ?e + ?l) [0] (?e @ m @ drop (length ?e + ?l) (rbuf r1)) = Some ?b"
    using r1(3) by (simp add: mem_write_Some)
  ultimately have "record_append alc (of_nat ?l) (m @ rest) r off =
      Inr (?r, advance off (of_nat ?l))"
    using r1(1) l w bo
    by (simp add: record_append_def c_max_def Let_def needed mem_read_def advance_def)
  moreover have "stores ?r (ms @ [m])"
    using r r1(2,3) m n32 small
    by (auto simp: stores_def record_wf_def word_le_nat_alt simp del: of_nat_add)
  moreover have "offset_at (advance off (of_nat ?l)) (ms @ [m])"
    using off m room by (intro offset_advance) (simp_all add: log_limit_def)
  ultimately show thesis by (rule that)
qed

section \<open>Raw blocks\<close>


section \<open>Playback\<close>

text \<open>The effect of a handler on a list of messages, given the string's bytes.\<close>

fun fold_handler :: "(byte list \<Rightarrow> 's \<Rightarrow> 's res) \<Rightarrow> byte list list \<Rightarrow> 's \<Rightarrow> 's res" where
  "fold_handler h [] s = Inr s"
| "fold_handler h (m # ms) s = rbind (h m s) (\<lambda>s'. fold_handler h ms s')"

lemma playback_loop_holds:
  assumes "holds r (ms @ ns)" and "length (encode 0 (ms @ ns)) \<le> log_limit"
    and "length ns < fuel"
  shows "playback_loop fuel r (\<lambda>n p. h (take (unat n) p)) (of_nat (length (encode 0 ms))) s =
         fold_handler h ns s"
  using assms
proof (induction ns arbitrary: ms fuel s)
  case Nil
  then obtain f where f: "fuel = Suc f" by (cases fuel) auto
  have "unat (used_bytes r) = length (encode 0 ms)"
    using Nil.prems(1) by (simp add: stores_used holds_stores)
  then have "used_bytes r = of_nat (length (encode 0 ms))"
    by (metis of_nat_unat ucast_id)
  then show ?case by (simp add: f)
next
  case (Cons m ns)
  then obtain f where f: "fuel = Suc f" by (cases fuel) auto
  let ?e = "length (encode 0 ms)"
  have s: "stores r (ms @ m # ns)" and free: "nul_free m"
    using Cons.prems(1) by (simp_all add: holds_def)
  have e: "?e + length m < 2 ^ 30" using Cons.prems(2) by (simp add: log_limit_def)
  then have u: "unat (of_nat ?e :: u32) = ?e" "unat (of_nat (length m) :: u64) = length m"
    by (simp_all add: unat_of_nat32 unat_of_nat64)
  have lt: "(of_nat ?e :: u32) < used_bytes r"
    using stores_used [OF s] u by (simp add: word_less_nat_alt)
  have pos: "\<not> sint (of_nat ?e :: u32) < 0"
    using u e by (simp add: sint_u32_small)
  have nxt: "(ucast ((scast (of_nat ?e :: u32) :: u64) + (of_nat (length m) + 1)) :: u32)
      = of_nat (length (encode 0 (ms @ [m])))"
  proof -
    have "(scast (of_nat ?e :: u32) :: u64) = of_nat ?e"
      using u e by (simp add: scast_u32_small) (metis of_nat_unat unat_ucast_up32)
    then show ?thesis
      using ucast_of_nat32 [of "?e + (length m + 1)"] by (simp add: ac_simps)
  qed
  obtain rest where p: "drop ?e (rbuf r) = m @ 0 # rest"
    using stores_drop [OF s] by simp
  have IH: "playback_loop f r (\<lambda>n p. h (take (unat n) p)) (of_nat (length (encode 0 (ms @ [m])))) =
      fold_handler h ns"
    using Cons.prems f by (intro ext Cons.IH) simp_all
  show ?case
    using lt pos free u by (simp add: f p nxt IH Let_def del: encode_simps(3))
qed

lemma record_playback_all_holds:
  assumes "holds r ms" and "length (encode 0 ms) \<le> log_limit"
  shows "record_playback_all r (\<lambda>n p. h (take (unat n) p)) s = fold_handler h ms s"
proof -
  have "length ms \<le> length (encode 0 ms)" by (induction ms) auto
  then have "length ms < Suc (unat (used_bytes r))"
    using stores_used [OF holds_stores [OF assms(1)]] by simp
  then show ?thesis
    unfolding record_playback_all_def
    using playback_loop_holds [of r "[]" ms _ h s] assms by (simp del: playback_loop.simps)
qed

lemma record_playback_at:
  assumes "holds r (ms @ m # ns)" and "offset_at off ms"
  shows "record_playback r (\<lambda>n p. h (take (unat n) p)) off s =
     rbind (h m s) (\<lambda>s'. Inr (True, advance off (of_nat (length m)), s'))"
proof -
  have st: "stores r (ms @ m # ns)" and free: "nul_free m"
    using assms(1) by (simp_all add: holds_def)
  obtain rest where "drop (unat (byte_count off)) (rbuf r) = m @ 0 # rest"
    using stores_drop [OF st] assms(2) by (simp add: offset_at_def)
  moreover have "length m < 2 ^ 32"
  proof -
    have "length m < unat (used_bytes r)" using stores_used [OF st] by simp
    then show ?thesis using u32_lt [of "used_bytes r"] by simp
  qed
  then have "unat (of_nat (length m) :: u64) = length m" by (intro unat_of_nat64) simp
  ultimately show ?thesis
    using offset_lt_used [OF st assms(2)] free by (auto simp: record_playback_def Let_def)
qed

section \<open>Cloning and comparing\<close>

lemma memcmp_refl [simp]: "memcmp s s = 0"
  by (induction s) auto

lemma memcmp_zero_iff: "memcmp s t = 0 \<longleftrightarrow> take (length t) s = take (length s) t"
  by (induction s t rule: memcmp.induct) auto

lemma record_clone_stores:
  assumes "stores r ms" and "\<And>k. alc k \<noteq> None"
  obtains c where "record_clone alc r = Inr c" and "stores c ms" and "record_compare r c = Inr 0"
    and "used_bytes c = used_bytes r"
proof -
  let ?u = "unat (used_bytes r)" and ?a = "unat (alloc_bytes r)"
  have u: "?u \<le> ?a" "length (rbuf r) = ?a" "take ?u (rbuf r) = encode 0 ms"
    using assms(1) by (simp_all add: stores_def record_wf_def word_le_nat_alt)
  obtain junk where b: "malloc alc ?a = Some (map junk [0..<?a])"
    using assms(2) [of ?a] by (auto simp: malloc_def)
  obtain c0 where c0: "malloc alc sizeof_record = Some c0"
    using assms(2) [of sizeof_record] by (auto simp: malloc_def)
  let ?c = "r\<lparr>rbuf := encode 0 ms @ drop ?u (map junk [0..<?a])\<rparr>"
  have len: "length (encode 0 ms) = ?u" using u by (metis length_take min.absorb2)
  have "record_clone alc r = Inr ?c"
    using b c0 u len by (simp add: record_clone_def Let_def mem_read_def mem_write_def)
  moreover have "stores ?c ms"
    using assms(1) u len by (simp add: stores_def record_wf_def)
  moreover have "record_compare r ?c = Inr 0"
    using u len by (simp add: record_compare_def c_min_def mem_read_def)
  ultimately show thesis by (rule that) simp
qed

section \<open>The limit of a single doubling\<close>

lemma record_append_overrun:
  assumes wf: "record_wf r" and alc: "\<And>k. alc k \<noteq> None"
    and n: "unat (byte_count off) + n + 1 \<le> 2 ^ 30" "n \<le> length input"
    and big: "2 * unat (alloc_bytes r) < unat (byte_count off) + n + 1"
  shows "record_append alc (of_nat n) input r off = Inl OutOfBounds"
proof -
  define o' where "o' = unat (byte_count off)"
  define a where "a = unat (alloc_bytes r)"
  note [simp] = o'_def [symmetric] a_def [symmetric]
  have bo: "(ucast (byte_count off) :: u64) = of_nat o'"
    unfolding o'_def by (metis of_nat_unat unat_ucast_up32)
  have a: "a < 2 ^ 29" "length (rbuf r) = a"
    using wf n(1) big by (simp_all add: record_wf_def)
  have "sint (ucast ((of_nat (o' + n + 1) :: u64) - ucast (alloc_bytes r)) :: u32) \<le> 0 \<longleftrightarrow>
      o' + n + 1 \<le> a"
    unfolding a_def using wf n(1) by (intro int_difference) (simp_all add: record_wf_def)
  then have grow: "\<not> sint (ucast ((of_nat (o' + n + 1) :: u64) - ucast (alloc_bytes r)) :: u32) \<le> 0"
    using big by simp
  have d: "unat (alloc_bytes r * 2) = a * 2" using a by (simp add: unat_word_ariths)
  obtain nb where nb: "realloc alc (rbuf r) (a * 2) = Some nb"
    using alc [of "a * 2"] by (auto simp: realloc_def)
  have l: "length nb = a * 2" using realloc_grow [OF nb] a by simp
  have w: "unat (of_nat n :: u64) = n" "unat ((of_nat o' :: u64) + of_nat n) = o' + n"
    using n(1) unat_of_nat64 [of "o' + n"] by (simp_all add: unat_of_nat64)
  have needed: "(of_nat o' :: u64) + of_nat n + 1 = of_nat (o' + n + 1)" by simp
  have fault: "rbind (opt_res OutOfBounds (mem_write o' (take n input) nb)) (\<lambda>b1.
      rbind (opt_res OutOfBounds (mem_write (o' + n) [0] b1)) k) = Inl OutOfBounds"
    for k :: "byte list \<Rightarrow> (record_t \<times> offset_t) res"
    using l big by (auto simp: mem_write_def)
  show ?thesis
    using grow nb d w n(2) fault
    by (simp add: record_append_def c_max_def Let_def bo needed record_realloc_def mem_read_def
        del: of_nat_add of_nat_Suc)
qed

section \<open>The contract: an append-only log with a reader\<close>

text \<open>
  What the callers rely on: appending a message that fits keeps what was written and read,
  fetching returns the messages in the order they were appended, and reports the end.
  \<open>log s ms k\<close> says that the state \<open>s\<close> carries the messages \<open>ms\<close>, of which the first
  \<open>k\<close> have been read.
\<close>

fun put_all :: "('m \<Rightarrow> 's \<Rightarrow> 's res) \<Rightarrow> 'm list \<Rightarrow> 's \<Rightarrow> 's res" where
  "put_all put [] s = Inr s"
| "put_all put (m # ms) s = rbind (put m s) (put_all put ms)"

fun get_n :: "('s \<Rightarrow> ('m option \<times> 's) res) \<Rightarrow> nat \<Rightarrow> 's \<Rightarrow> ('m list \<times> 's) res" where
  "get_n get 0 s = Inr ([], s)"
| "get_n get (Suc n) s =
     rbind (get s) (\<lambda>(m, s1).
       case m of None \<Rightarrow> Inr ([], s1)
       | Some x \<Rightarrow> rbind (get_n get n s1) (\<lambda>(xs, s2). Inr (x # xs, s2)))"

locale message_log =
  fixes put :: "'m \<Rightarrow> 's \<Rightarrow> 's res"
    and get :: "'s \<Rightarrow> ('m option \<times> 's) res"
    and log :: "'s \<Rightarrow> 'm list \<Rightarrow> nat \<Rightarrow> bool"
    and fits :: "'m list \<Rightarrow> 'm \<Rightarrow> bool"
  assumes put_law:
      "log s ms k \<Longrightarrow> fits ms m \<Longrightarrow> \<exists>s'. put m s = Inr s' \<and> log s' (ms @ [m]) k"
    and get_law:
      "log s ms k \<Longrightarrow> k < length ms \<Longrightarrow>
       \<exists>s'. get s = Inr (Some (ms ! k), s') \<and> log s' ms (Suc k)"
    and end_law: "log s ms k \<Longrightarrow> length ms \<le> k \<Longrightarrow> get s = Inr (None, s)"
begin

lemma put_all_log:
  assumes "log s ms k" and "\<And>i. i < length ns \<Longrightarrow> fits (ms @ take i ns) (ns ! i)"
  shows "\<exists>s'. put_all put ns s = Inr s' \<and> log s' (ms @ ns) k"
  using assms
proof (induction ns arbitrary: s ms)
  case (Cons n ns)
  from Cons.prems(2) [of 0] have "fits ms n" by simp
  from put_law [OF Cons.prems(1) this] obtain s1 where s1: "put n s = Inr s1" "log s1 (ms @ [n]) k"
    by blast
  have "\<exists>s'. put_all put ns s1 = Inr s' \<and> log s' ((ms @ [n]) @ ns) k"
    using Cons.prems(2) [of "Suc _"] by (intro Cons.IH s1) simp
  with s1 show ?case by simp
qed simp

lemma get_n_log:
  assumes "log s ms k" and "k + n \<le> length ms"
  shows "\<exists>s'. get_n get n s = Inr (take n (drop k ms), s') \<and> log s' ms (k + n)"
  using assms
proof (induction n arbitrary: s k)
  case (Suc n)
  then obtain s1 where s1: "get s = Inr (Some (ms ! k), s1)" "log s1 ms (Suc k)"
    using get_law [of s ms k] by auto
  obtain s2 where "get_n get n s1 = Inr (take n (drop (Suc k) ms), s2)" "log s2 ms (Suc k + n)"
    using Suc.IH [OF s1(2)] Suc.prems(2) by auto
  moreover have "drop k ms = ms ! k # drop (Suc k) ms"
    using Suc.prems(2) by (simp add: Cons_nth_drop_Suc)
  ultimately show ?case using s1 by simp
qed simp

text \<open>First in, first out: what was put is what is got, in order, and then the end.\<close>

lemma fifo:
  assumes "log s [] 0" and "\<And>i. i < length ms \<Longrightarrow> fits (take i ms) (ms ! i)"
  shows "\<exists>s1 s2. put_all put ms s = Inr s1 \<and> get_n get (length ms) s1 = Inr (ms, s2) \<and>
    get s2 = Inr (None, s2)"
proof -
  from put_all_log [OF assms(1), of ms] assms(2)
  obtain s1 where s1: "put_all put ms s = Inr s1" "log s1 ms 0" by auto
  from get_n_log [OF this(2), of "length ms"]
  obtain s2 where "get_n get (length ms) s1 = Inr (ms, s2)" "log s2 ms (length ms)" by auto
  with s1 end_law show ?thesis by blast
qed

end

section \<open>The record is such a log\<close>

definition rw_put :: "allocator \<Rightarrow> byte list \<Rightarrow> rw_t \<Rightarrow> rw_t res" where
  "rw_put alc m rw = rw_append alc (of_nat (length m)) (m @ [0]) rw"

definition rw_get :: "rw_t \<Rightarrow> (byte list option \<times> rw_t) res" where
  "rw_get rw = rbind (rw_fetch rw) (\<lambda>(p, n, rw'). Inr (map_option (take (unat n)) p, rw'))"

definition rw_log :: "rw_t \<Rightarrow> byte list list \<Rightarrow> nat \<Rightarrow> bool" where
  "rw_log rw ms k \<longleftrightarrow>
     (\<exists>r. rw_rec rw = Some r \<and> holds r ms \<and> k \<le> length ms \<and> offset_at (rw_write rw) ms \<and>
        offset_at (rw_read rw) (take k ms) \<and> length (encode 0 ms) \<le> log_limit)"

definition log_fits :: "byte list list \<Rightarrow> byte list \<Rightarrow> bool" where
  "log_fits ms m \<longleftrightarrow>
     nul_free m \<and> length m < 4096 \<and> length (encode 0 ms) + 4096 \<le> log_limit"

definition rw_new :: "record_t \<Rightarrow> rw_t" where
  "rw_new r = \<lparr>rw_rec = Some r, rw_read = offset_zero, rw_write = offset_zero\<rparr>"

lemma rw_append_log:
  assumes "rw_log rw ms k" and "log_fits ms m" and "\<And>n. alc n \<noteq> None"
  shows "\<exists>rw'. rw_append alc (of_nat (length m)) (m @ rest) rw = Inr rw' \<and>
    rw_log rw' (ms @ [m]) k \<and> rw_read rw' = rw_read rw"
proof -
  obtain r where r: "rw_rec rw = Some r" "holds r ms" "offset_at (rw_write rw) ms" "k \<le> length ms"
    "offset_at (rw_read rw) (take k ms)"
    using assms(1) by (auto simp: rw_log_def)
  have fit: "nul_free m" "length m < 4096" "length (encode 0 ms) + 4096 \<le> log_limit"
    using assms(2) by (simp_all add: log_fits_def)
  obtain r' where "record_append alc (of_nat (length m)) (m @ rest) r (rw_write rw) =
       Inr (r', advance (rw_write rw) (of_nat (length m)))" "stores r' (ms @ [m])"
    "offset_at (advance (rw_write rw) (of_nat (length m))) (ms @ [m])"
    by (rule record_append_stores [OF holds_stores [OF r(2)] r(3) fit(2,3) assms(3)])
  with r fit show ?thesis
    by (auto simp: rw_append_def rw_log_def holds_def)
qed

lemma rw_fetch_log:
  assumes "rw_log rw ms k" and "k < length ms"
  shows "\<exists>cmd rw'. rw_fetch rw = Inr (Some cmd, of_nat (length (ms ! k)), rw') \<and>
    take (length (ms ! k)) cmd = ms ! k \<and> cstr cmd = ms ! k \<and>
    (\<exists>rest. cmd = ms ! k @ 0 # rest) \<and> rw_log rw' ms (Suc k) \<and>
    rw_write rw' = rw_write rw \<and> rw_rec rw' = rw_rec rw"
proof -
  let ?m = "ms ! k"
  obtain r where r: "rw_rec rw = Some r" "holds r ms" "offset_at (rw_write rw) ms"
    "offset_at (rw_read rw) (take k ms)" "length (encode 0 ms) \<le> log_limit"
    using assms(1) by (auto simp: rw_log_def)
  have split: "ms = take k ms @ ?m # drop (Suc k) ms"
    using assms(2) by (simp add: id_take_nth_drop)
  have "length (encode 0 (take k ms)) + length ?m < length (encode 0 ms)"
    by (subst (2) split) simp
  then have "offset_at (advance (rw_read rw) (of_nat (length ?m))) (take (Suc k) ms)"
    using offset_advance [OF r(4)] r(5) assms(2) by (simp add: take_Suc_conv_app_nth)
  moreover have "\<exists>cmd. record_read r (rw_read rw) = Inr (Some cmd, of_nat (length ?m),
      advance (rw_read rw) (of_nat (length ?m))) \<and> cstr cmd = ?m \<and> take (length ?m) cmd = ?m \<and>
      (\<exists>rest. cmd = ?m @ 0 # rest)"
    using r(2,4) split by (intro record_read_at [where ns = "drop (Suc k) ms"]) simp_all
  ultimately show ?thesis
    using r assms(2) by (auto simp: rw_fetch_def rw_log_def)
qed

lemma rw_fetch_end:
  assumes "rw_log rw ms k" and "length ms \<le> k"
  shows "rw_fetch rw = Inr (None, 0, rw)"
  using assms record_read_end
  by (fastforce simp: rw_log_def rw_fetch_def holds_def)

lemma rw_new_log:
  assumes "record_alloc alc = Inr r" and "alc 4096 \<noteq> None"
  shows "rw_log (rw_new r) [] 0"
  using record_alloc_holds [OF assms] by (simp add: rw_log_def rw_new_def log_limit_def)

lemma rw_put_law:
  assumes "rw_log rw ms k" and "(\<forall>n. alc n \<noteq> None) \<and> log_fits ms m"
  shows "\<exists>rw'. rw_put alc m rw = Inr rw' \<and> rw_log rw' (ms @ [m]) k"
  using rw_append_log [OF assms(1), of m alc "[0]"] assms(2) by (auto simp: rw_put_def)

lemma rw_get_law:
  assumes "rw_log rw ms k" and "k < length ms"
  shows "\<exists>rw'. rw_get rw = Inr (Some (ms ! k), rw') \<and> rw_log rw' ms (Suc k)"
proof -
  obtain r where "holds r ms" "length (encode 0 ms) \<le> log_limit"
    using assms(1) by (auto simp: rw_log_def)
  moreover have "length (ms ! k) < length (encode 0 ms)"
    using assms(2) by (intro length_encode_le) simp
  ultimately have "unat (of_nat (length (ms ! k)) :: u64) = length (ms ! k)"
    by (intro unat_of_nat64) (simp add: log_limit_def)
  then show ?thesis
    using rw_fetch_log [OF assms] by (auto simp: rw_get_def)
qed

lemma rw_get_end: "rw_log rw ms k \<Longrightarrow> length ms \<le> k \<Longrightarrow> rw_get rw = Inr (None, rw)"
  by (simp add: rw_get_def rw_fetch_end)

interpretation rw: message_log "rw_put alc" rw_get rw_log
  "\<lambda>ms m. (\<forall>n. alc n \<noteq> None) \<and> log_fits ms m" for alc
  by unfold_locales (rule rw_put_law rw_get_law rw_get_end; assumption)+








lemma encode_prefix_le: "length (encode c (take i ms)) \<le> length (encode c ms)"
  by (metis append_take_drop_id encode_simps(3) le_add1 length_append)

text \<open>An allocator that never fails, for the examples.\<close>

definition all_succeed :: allocator where
  "all_succeed = (\<lambda>n. Some (\<lambda>i. 0))"

section \<open>Properties\<close>

text \<open>C6: A fresh record is a first-in first-out log of commands: appending any NUL-free commands
  shorter than 4096 bytes (up to the size limit) never faults, and reading returns exactly these
  commands in order and then the null command.\<close>

theorem record_fifo_roundtrip:
  assumes "record_alloc alc = Inr r" and "\<And>n. alc n \<noteq> None"
    and "\<forall>m \<in> set ms. nul_free m \<and> length m < 4096"
    and "length (encode 0 ms) + 4096 \<le> log_limit"
  shows "\<exists>s1 s2. put_all (rw_put alc) ms (rw_new r) = Inr s1 \<and>
    get_n rw_get (length ms) s1 = Inr (ms, s2) \<and> rw_get s2 = Inr (None, s2)"
proof (rule rw.fifo)
  show "rw_log (rw_new r) [] 0" using assms(1,2) by (intro rw_new_log) auto
  show "(\<forall>n. alc n \<noteq> None) \<and> log_fits (take i ms) (ms ! i)" if "i < length ms" for i
    using assms that encode_prefix_le [of 0 i ms] nth_mem [OF that]
    by (auto simp: log_fits_def)
qed

theorem record_fifo_roundtrip_witness:
  "\<exists>r s1 s2. record_alloc all_succeed = Inr r \<and>
    put_all (rw_put all_succeed) [str ''v x 1'', [], str ''s''] (rw_new r) = Inr s1 \<and>
    get_n rw_get 3 s1 = Inr ([str ''v x 1'', [], str ''s''], s2) \<and> rw_get s2 = Inr (None, s2)"
proof -
  obtain r where r: "record_alloc all_succeed = Inr r"
    by (simp add: record_alloc_def malloc_def all_succeed_def)
  show ?thesis
    using r record_fifo_roundtrip [OF r, of "[str ''v x 1'', [], str ''s'']"]
    by (auto simp: all_succeed_def ch_def log_limit_def numeral_3_eq_3
        simp del: put_all.simps get_n.simps)
qed



text \<open>Playback visits every recorded command exactly once, in order, and stops: on a record
  that holds \<open>ms\<close>, \<open>record_playback_all\<close> is the fold of the handler over \<open>ms\<close>, and
  neither its unrolling nor any of its reads runs out of bounds.\<close>

theorem record_playback_all_order:
  assumes "holds r ms" and "length (encode 0 ms) \<le> log_limit"
  shows "record_playback_all r (\<lambda>n p s. Inr (s @ [take (unat n) p])) [] = Inr ms"
proof -
  have "fold_handler (\<lambda>m s. Inr (s @ [m])) ms s = Inr (s @ ms)" for s
    by (induction ms arbitrary: s) auto
  then show ?thesis
    using record_playback_all_holds [OF assms, of "\<lambda>m s. Inr (s @ [m])" "[]"] by simp
qed

definition example_record :: record_t where
  "example_record =
     \<lparr>rbuf = encode 0 [str ''ab'', []] @ replicate 4092 0, alloc_bytes = 4096, used_bytes = 4\<rparr>"

lemma example_record_simps [simp]:
  "alloc_bytes example_record = 4096" "used_bytes example_record = 4"
  by (simp_all only: example_record_def record_t.simps)

lemma example_record_holds: "holds example_record [str ''ab'', []]"
  by (simp add: example_record_def holds_def stores_def record_wf_def ch_def)

theorem record_playback_all_order_witness:
  "record_playback_all example_record (\<lambda>n p s. Inr (s @ [take (unat n) p])) [] =
   Inr [str ''ab'', []]"
  by (rule record_playback_all_order [OF example_record_holds]) (simp add: log_limit_def)

text \<open>A clone of a record stores the same bytes, and \<open>record_compare\<close> reports the record
  and its clone as equal.\<close>

theorem record_clone_equal:
  assumes "stores r ms" and "\<And>k. alc k \<noteq> None"
  shows "\<exists>c. record_clone alc r = Inr c \<and> stores c ms \<and> used_bytes c = used_bytes r \<and>
    record_compare r c = Inr 0"
  by (rule record_clone_stores [OF assms(1), of alc]) (use assms(2) in auto)

theorem record_clone_equal_witness:
  "\<exists>c. record_clone all_succeed example_record = Inr c \<and> stores c [str ''ab'', []] \<and>
     used_bytes c = used_bytes example_record \<and> record_compare example_record c = Inr 0"
  by (rule record_clone_equal [OF holds_stores [OF example_record_holds]])
    (simp add: all_succeed_def)

text \<open>C33: The buffer is doubled once only: an append that needs more than twice the allocated
  bytes writes outside the buffer, even though every allocation succeeds.\<close>

theorem record_append_single_doubling:
  assumes "record_wf r" and "\<And>k. alc k \<noteq> None"
    and "unat (byte_count off) + n + 1 \<le> 2 ^ 30" and "n \<le> length input"
    and "2 * unat (alloc_bytes r) < unat (byte_count off) + n + 1"
  shows "record_append alc (of_nat n) input r off = Inl OutOfBounds"
  using assms by (rule record_append_overrun)


theorem record_append_single_doubling_witness:
  "record_append all_succeed (of_nat 8192) (replicate 8192 1) example_record offset_zero =
   Inl OutOfBounds"
proof (rule record_append_single_doubling)
  show "record_wf example_record"
    using example_record_holds by (simp add: holds_def stores_def)
  show "8192 \<le> length (replicate 8192 (1 :: byte))" by (simp only: length_replicate)
qed (simp_all add: all_succeed_def offset_zero_def)

end
