(* ===== verification/Network.thy ===== *)
theory Network
  imports CMacro
begin

unbundle bit_operations_syntax

text \<open>
  \<^verbatim>\<open>network.c\<close>: an end point of a stream socket. The kernel's answers (the outcome of
  \<open>poll\<close>, \<open>connect\<close>, \<open>socket\<close> and so on) are arguments; the descriptor options the code
  sets are kept in a table.
\<close>

section \<open>Kernel interface\<close>

definition POLLIN :: u16 where "POLLIN = 1"
definition POLLOUT :: u16 where "POLLOUT = 4"
definition POLLERR :: u16 where "POLLERR = 8"
definition POLLHUP :: u16 where "POLLHUP = 16"
definition POLLNVAL :: u16 where "POLLNVAL = 32"

lemmas poll_bits = POLLIN_def POLLOUT_def POLLERR_def POLLHUP_def POLLNVAL_def

definition EINTR :: u32 where "EINTR = 4"
definition EAGAIN :: u32 where "EAGAIN = 11"
definition EINPROGRESS :: u32 where "EINPROGRESS = 115"

text \<open>\<open>poll\<close> on one descriptor: an error with its \<open>errno\<close>, or the returned events.\<close>

datatype poll_out = Poll_err u32 | Poll_ok u16

text \<open>\<open>read\<close>: an error, or the bytes it stored; \<open>write\<close>: an error, or how many it took.\<close>

datatype read_out = Read_err u32 | Read_ok "byte list"
datatype write_out = Write_err u32 | Write_ok nat

definition STDERR_FILENO :: int where
  "STDERR_FILENO = 2"

definition O_NONBLOCK :: u32 where
  "O_NONBLOCK = 0x800"

record fd_table =
  fd_flags :: "int \<Rightarrow> u32 option"
  fd_nodelay :: "int \<Rightarrow> bool"

section \<open>End points\<close>

definition ss_storage :: nat where
  "ss_storage = 128"

record endpoint_t =
  sfd :: int
  storage :: "byte list"
  used_storage :: u32
  connected :: bool
  connecting :: bool
  disconnected :: bool

definition network_no_nagle :: "int \<Rightarrow> fd_table \<Rightarrow> fd_table" where
  "network_no_nagle fd t =
     (if fd \<le> STDERR_FILENO then t
      else t\<lparr>fd_nodelay := (fd_nodelay t)(fd := True)\<rparr>)"

definition network_non_blocking :: "int \<Rightarrow> fd_table \<Rightarrow> bool \<times> fd_table" where
  "network_non_blocking fd t =
     (if fd \<le> STDERR_FILENO then (False, t)
      else (case fd_flags t fd of
              None \<Rightarrow> (False, t)
            | Some flags \<Rightarrow>
                (True, t\<lparr>fd_flags := (fd_flags t)(fd := Some (flags OR O_NONBLOCK))\<rparr>)))"

definition endpoint_init :: endpoint_t where
  "endpoint_init =
     \<lparr>sfd = 0, storage = replicate ss_storage 0, used_storage = 0,
      connected = False, connecting = False, disconnected = False\<rparr>"

definition endpoint_from_fd :: "int \<Rightarrow> endpoint_t" where
  "endpoint_from_fd fd = endpoint_init\<lparr>sfd := fd\<rparr>"

text \<open>The descriptors \<open>endpoint_term\<close> closes, and the end point it leaves.\<close>

definition endpoint_term :: "endpoint_t \<Rightarrow> int list \<times> endpoint_t" where
  "endpoint_term ep =
     ((if sfd ep > STDERR_FILENO then [sfd ep] else []), ep\<lparr>sfd := 0\<rparr>)"

text \<open>
  \<open>getaddrinfo\<close> is a function of the host and the service; \<open>sock\<close> is the descriptor that
  \<open>socket\<close> returns for the address (-1 on failure).
\<close>

record addrinfo =
  ai_family :: u32
  ai_addr :: "byte list"

definition network_configure ::
  "(byte list \<Rightarrow> byte list \<Rightarrow> addrinfo option) \<Rightarrow> (addrinfo \<Rightarrow> int) \<Rightarrow>
   byte list \<Rightarrow> byte list \<Rightarrow> fd_table \<Rightarrow> (bool \<times> endpoint_t \<times> fd_table) res"
where
  "network_configure getaddrinfo sock host service_or_port t =
     (case getaddrinfo host service_or_port of
        None \<Rightarrow> Inr (False, endpoint_init, t)
      | Some result \<Rightarrow>
          let ep = endpoint_init\<lparr>sfd := sock result\<rparr>;
              t1 = network_no_nagle (sfd ep) t;
              (_, t2) = network_non_blocking (sfd ep) t1
          in if sfd ep = - 1 then Inr (False, ep, t2)
             else rbind (opt_res OutOfBounds (mem_write 0 (ai_addr result) (storage ep))) (\<lambda>st.
                  Inr (True, ep\<lparr>storage := st, used_storage := of_nat (length (ai_addr result))\<rparr>, t2)))"

text \<open>\<open>sv\<close> is the pair of descriptors, or \<open>None\<close> when \<open>socketpair\<close> fails.\<close>

definition network_socketpair ::
  "(int \<times> int) option \<Rightarrow> endpoint_t \<Rightarrow> endpoint_t \<Rightarrow> fd_table \<Rightarrow>
   bool \<times> endpoint_t \<times> endpoint_t \<times> fd_table"
where
  "network_socketpair sv client_ep server_ep t =
     (case sv of
        None \<Rightarrow> (False, client_ep, server_ep, t)
      | Some (a, b) \<Rightarrow>
          let client_ep = endpoint_from_fd a; server_ep = endpoint_from_fd b;
              (_, t1) = network_non_blocking (sfd client_ep) t
          in (True, client_ep, server_ep, t1))"

definition network_interrupted :: "u32 \<Rightarrow> bool" where
  "network_interrupted errno \<longleftrightarrow> errno = EINTR \<or> errno = EINPROGRESS"

text \<open>\<open>conn\<close> is the \<open>errno\<close> of a failed \<open>connect\<close>, or \<open>None\<close>.\<close>

definition network_connect :: "u32 option \<Rightarrow> endpoint_t \<Rightarrow> bool \<times> endpoint_t" where
  "network_connect conn ep =
     (if sfd ep \<le> STDERR_FILENO then (False, ep)
      else if (case conn of None \<Rightarrow> False | Some errno \<Rightarrow> \<not> network_interrupted errno)
      then (False, ep)
      else (True, ep\<lparr>connecting := True\<rparr>))"

text \<open>What \<open>network_read\<close> and \<open>network_write\<close> return: -1 or a count.\<close>

definition network_read :: "read_out \<Rightarrow> int" where
  "network_read r = (case r of Read_err _ \<Rightarrow> - 1 | Read_ok bs \<Rightarrow> int (length bs))"

definition network_write :: "write_out \<Rightarrow> int" where
  "network_write w = (case w of Write_err _ \<Rightarrow> - 1 | Write_ok n \<Rightarrow> int n)"

text \<open>
  \<open>kpoll fd events\<close> is the kernel's answer for a descriptor and a set of requested events. The
  result is the 32 bits of the returned \<open>int32_t\<close>.
\<close>

definition network_poll ::
  "(int \<Rightarrow> u16 \<Rightarrow> poll_out) \<Rightarrow> endpoint_t \<Rightarrow> u16 \<Rightarrow> u32 \<times> endpoint_t"
where
  "network_poll kpoll ep events =
     (case kpoll (sfd ep) ((POLLIN OR POLLOUT OR POLLERR) AND events) of
        Poll_err errno \<Rightarrow> (if errno = EINTR then (0, ep) else (errno, ep))
      | Poll_ok revents \<Rightarrow>
          let ep1 = (if flagged revents (POLLIN OR POLLOUT)
                     then ep\<lparr>connected := connecting ep\<rparr> else ep);
              ep2 = (if flagged revents POLLERR then ep1\<lparr>disconnected := True\<rparr> else ep1)
          in (scast revents, ep2))"

definition network_ready :: "(int \<Rightarrow> u16 \<Rightarrow> poll_out) \<Rightarrow> endpoint_t \<Rightarrow> bool \<times> endpoint_t" where
  "network_ready kpoll ep =
     (let (_, ep1) = network_poll kpoll ep (POLLOUT OR POLLIN OR POLLERR)
      in (connected ep1 \<and> \<not> disconnected ep1, ep1))"

section \<open>Lemmas\<close>

lemma network_poll_sfd [simp]: "sfd (snd (network_poll kpoll ep ev)) = sfd ep"
  by (simp add: network_poll_def Let_def split: poll_out.splits)

lemma network_poll_ok:
  "kpoll (sfd ep) ((POLLIN OR POLLOUT OR POLLERR) AND events) = Poll_ok revents \<Longrightarrow>
   fst (network_poll kpoll ep events) = scast revents"
  by (simp add: network_poll_def Let_def)

lemma disconnected_mono:
  "disconnected ep \<Longrightarrow> disconnected (snd (network_poll kpoll ep ev))"
  by (simp add: network_poll_def Let_def split: poll_out.splits)

lemma flagged_bit: "flagged a m \<longleftrightarrow> (\<exists>n. bit a n \<and> bit m n)"
  by (auto simp: flagged_def bit_eq_iff bit_simps dest: bit_imp_le_length)

text \<open>Testing the returned \<open>int32_t\<close> for events is testing the kernel's 16 bits.\<close>

lemma flagged_scast [simp]:
  fixes r m :: u16
  shows "flagged (scast r :: u32) (ucast m) \<longleftrightarrow> flagged r m"
proof -
  have "bit m n \<Longrightarrow> n < 32 \<and> min 15 n = n" for n
    using bit_imp_le_length [of m n] by simp
  then show ?thesis
    by (fastforce simp: flagged_bit bit_simps)
qed

section \<open>Properties\<close>

text \<open>What the kernel's answer to a poll for all events reports.\<close>

definition reports :: "(int \<Rightarrow> u16 \<Rightarrow> poll_out) \<Rightarrow> endpoint_t \<Rightarrow> u16 \<Rightarrow> bool" where
  "reports kpoll ep events =
     (case kpoll (sfd ep) (POLLIN OR POLLOUT OR POLLERR) of
        Poll_err _ \<Rightarrow> False
      | Poll_ok revents \<Rightarrow> flagged revents events)"

lemma network_ready_step:
  "disconnected (snd (network_ready kpoll ep)) \<longleftrightarrow> disconnected ep \<or> reports kpoll ep POLLERR"
  "connected (snd (network_ready kpoll ep)) \<longleftrightarrow>
     (if reports kpoll ep (POLLIN OR POLLOUT) then connecting ep else connected ep)"
  "connecting (snd (network_ready kpoll ep)) = connecting ep" "sfd (snd (network_ready kpoll ep)) = sfd ep"
  by (auto simp: network_ready_def network_poll_def reports_def Let_def poll_bits split: poll_out.splits)

lemma reports_cong: "sfd ep' = sfd ep \<Longrightarrow> reports kpoll ep' = reports kpoll ep"
  by (simp add: reports_def fun_eq_iff)

text \<open>The end point after a number of polls.\<close>

lemma network_ready_fold:
  fixes ks :: "(int \<Rightarrow> u16 \<Rightarrow> poll_out) list"
  defines "after \<equiv> fold (\<lambda>kpoll ep. snd (network_ready kpoll ep)) ks"
  shows "sfd (after ep) = sfd ep \<and> connecting (after ep) = connecting ep \<and>
    (disconnected (after ep) \<longleftrightarrow> disconnected ep \<or> (\<exists>k \<in> set ks. reports k ep POLLERR)) \<and>
    (connected (after ep) \<longleftrightarrow>
      (if \<exists>k \<in> set ks. reports k ep (POLLIN OR POLLOUT) then connecting ep else connected ep))"
  unfolding after_def
proof (induction ks rule: rev_induct)
  case (snoc k ks)
  define ep1 where "ep1 = fold (\<lambda>kpoll ep. snd (network_ready kpoll ep)) ks ep"
  have IH: "sfd ep1 = sfd ep" "connecting ep1 = connecting ep"
    "disconnected ep1 \<longleftrightarrow> disconnected ep \<or> (\<exists>k \<in> set ks. reports k ep POLLERR)"
    "connected ep1 \<longleftrightarrow>
      (if \<exists>k \<in> set ks. reports k ep (POLLIN OR POLLOUT) then connecting ep else connected ep)"
    using snoc unfolding ep1_def by blast+
  have last: "fold (\<lambda>kpoll ep. snd (network_ready kpoll ep)) (ks @ [k]) ep = snd (network_ready k ep1)"
    by (simp add: ep1_def)
  show ?case
    unfolding last network_ready_step reports_cong [OF IH(1)] IH by (simp add: disj_ac)
qed simp

text \<open>C38: An end point that is asked again and again is ready exactly when no answer of the kernel, the
  last included, has reported an error and it was not disconnected at the start; and when it was
  connecting, once an answer has shown it readable or writable, or was connected at the start,
  before any such answer. Failed polls change nothing.\<close>

theorem network_ready_history:
  assumes "ep' = fold (\<lambda>kpoll ep. snd (network_ready kpoll ep)) kpolls ep"
  shows "fst (network_ready kpoll ep') \<longleftrightarrow>
    \<not> disconnected ep \<and> (\<forall>k \<in> set (kpolls @ [kpoll]). \<not> reports k ep POLLERR) \<and>
    (if \<exists>k \<in> set (kpolls @ [kpoll]). reports k ep (POLLIN OR POLLOUT) then connecting ep else connected ep)"
proof -
  have "fst (network_ready kpoll ep') \<longleftrightarrow>
      connected (snd (network_ready kpoll ep')) \<and> \<not> disconnected (snd (network_ready kpoll ep'))"
    by (simp add: network_ready_def split: prod.splits)
  moreover have "snd (network_ready kpoll ep') = fold (\<lambda>k ep. snd (network_ready k ep)) (kpolls @ [kpoll]) ep"
    by (simp add: assms)
  ultimately show ?thesis using network_ready_fold [of "kpolls @ [kpoll]" ep] by auto
qed

text \<open>Writable, then an error, then writable again: not ready any more.\<close>

theorem network_ready_history_witness:
  "fst (network_ready (\<lambda>_ _. Poll_ok POLLOUT) (endpoint_init\<lparr>connecting := True\<rparr>)) \<and>
   \<not> fst (network_ready (\<lambda>_ _. Poll_ok POLLOUT)
        (fold (\<lambda>kpoll ep. snd (network_ready kpoll ep))
          [\<lambda>_ _. Poll_ok POLLOUT, \<lambda>_ _. Poll_ok POLLERR] (endpoint_init\<lparr>connecting := True\<rparr>)))"
proof -
  let ?out = "\<lambda>_ _. Poll_ok POLLOUT" and ?ep = "endpoint_init\<lparr>connecting := True\<rparr>"
  have reports: "reports ?out ?ep (POLLIN OR POLLOUT)" "\<not> reports ?out ?ep POLLERR"
    "reports (\<lambda>_ _. Poll_ok POLLERR) ?ep POLLERR" "\<not> disconnected ?ep" "connecting ?ep"
    by (simp_all add: reports_def flagged_def poll_bits endpoint_init_def)
  have "?ep = fold (\<lambda>kpoll ep. snd (network_ready kpoll ep)) [] ?ep" by simp
  from network_ready_history [OF this, of ?out] have "fst (network_ready ?out ?ep)" using reports by simp
  moreover have "\<not> fst (network_ready ?out (fold (\<lambda>kpoll ep. snd (network_ready kpoll ep))
      [?out, \<lambda>_ _. Poll_ok POLLERR] ?ep))"
    unfolding network_ready_history [OF refl] using reports by simp
  ultimately show ?thesis by blast
qed

text \<open>A failure of \<open>poll\<close> other than an interruption is returned as its error number, which the
  callers read as events: when the kernel is out of memory (\<open>ENOMEM\<close>, 12) the answer reads as
  writable, and as neither readable nor closed.\<close>

theorem network_poll_error_reads_as_events:
  assumes "kpoll (sfd ep) ((POLLIN OR POLLOUT OR POLLERR) AND ev) = Poll_err 12"
  shows "flagged (fst (network_poll kpoll ep ev)) (ucast POLLOUT) \<and>
    \<not> flagged (fst (network_poll kpoll ep ev)) (ucast POLLIN) \<and>
    snd (network_poll kpoll ep ev) = ep"
  using assms by (simp add: network_poll_def EINTR_def flagged_def poll_bits)

theorem network_poll_error_reads_as_events_witness:
  "flagged (fst (network_poll (\<lambda>_ _. Poll_err 12) endpoint_init POLLOUT)) (ucast POLLOUT)"
  using network_poll_error_reads_as_events [of "\<lambda>_ _. Poll_err 12" endpoint_init POLLOUT] by simp

text \<open>Configuring a remote end point: when the host resolves and a socket is made, the end point
  carries the descriptor and exactly the resolved address, and the descriptor is non-blocking and
  without Nagle's delay.\<close>

theorem network_configure_sets_up:
  assumes "gai host service = Some ai" and "2 < sock ai" and "length (ai_addr ai) \<le> 128"
    and "fd_flags t (sock ai) = Some flags"
  shows "\<exists>ep t'. network_configure gai sock host service t = Inr (True, ep, t') \<and>
    sfd ep = sock ai \<and> take (unat (used_storage ep)) (storage ep) = ai_addr ai \<and>
    length (storage ep) = 128 \<and> \<not> connecting ep \<and> \<not> connected ep \<and> \<not> disconnected ep \<and>
    fd_flags t' (sock ai) = Some (flags OR O_NONBLOCK) \<and> fd_nodelay t' (sock ai)"
proof -
  have "unat (of_nat (length (ai_addr ai)) :: u32) = length (ai_addr ai)"
    using assms(3) by (intro unat_of_nat32) simp
  then show ?thesis
    using assms
    by (simp add: network_configure_def network_non_blocking_def network_no_nagle_def Let_def
        STDERR_FILENO_def endpoint_init_def ss_storage_def mem_write_def)
qed

theorem network_configure_sets_up_witness:
  "\<exists>ep t'. network_configure (\<lambda>_ _. Some \<lparr>ai_family = 2, ai_addr = [2, 0, 15, 160]\<rparr>) (\<lambda>_. 5)
      (str ''gamehost'') (str ''4000'') \<lparr>fd_flags = (\<lambda>_. Some 2), fd_nodelay = (\<lambda>_. False)\<rparr>
      = Inr (True, ep, t') \<and> sfd ep = 5 \<and> fd_nodelay t' 5"
  using network_configure_sets_up
    [of "\<lambda>_ _. Some \<lparr>ai_family = 2, ai_addr = [2, 0, 15, 160]\<rparr>" "str ''gamehost''" "str ''4000''"
        "\<lparr>ai_family = 2, ai_addr = [2, 0, 15, 160]\<rparr>" "\<lambda>_. 5"
        "\<lparr>fd_flags = (\<lambda>_. Some 2), fd_nodelay = (\<lambda>_. False)\<rparr>" 2]
  by auto

end
