(* ===== verification/Network_Server.thy ===== *)
theory Network_Server
  imports Network
begin

unbundle bit_operations_syntax

text \<open>
  \<^verbatim>\<open>network_server.c\<close>: the thread behind the local socket pair. It reassembles the client's
  byte stream into NUL-terminated messages and sends each back in a frame: a 32-bit length, the
  player's number as text, and the message with its terminator.
\<close>

section \<open>State\<close>

definition server_recv_max :: nat where
  "server_recv_max = 4096"

record server_t =
  s_ep :: endpoint_t
  s_buf :: "byte list"
  s_used :: u32
  s_received :: u64
  s_sent :: "byte list"
  s_running :: bool

definition server_start :: "endpoint_t \<Rightarrow> server_t" where
  "server_start ep =
     \<lparr>s_ep = ep, s_buf = replicate server_recv_max 0, s_used = 0, s_received = 0,
      s_sent = [], s_running = True\<rparr>"

section \<open>Operations\<close>

text \<open>
  \<open>acc bs\<close> is the part of the bytes \<open>bs\<close> that the kernel takes when they are written; the
  results of the writes are not looked at. \<open>message\<close> is the memory the pointer points to.
\<close>

definition server_message ::
  "(byte list \<Rightarrow> byte list) \<Rightarrow> u32 \<Rightarrow> byte list \<Rightarrow> byte list res"
where
  "server_message acc n message =
     (let player = str ''000'' @ [0]; n1 = n + 1 in
      rbind (opt_res OutOfBounds (mem_read 0 (unat n1) message)) (\<lambda>bs.
      Inr (acc (le32 n1) @ acc player @ acc bs)))"

text \<open>
  The loop of \<open>server_process\<close> with \<open>k\<close> bytes left to look at: what is sent, and the start of
  the unfinished message.
\<close>

fun server_scan ::
  "(byte list \<Rightarrow> byte list) \<Rightarrow> nat \<Rightarrow> nat \<Rightarrow> nat \<Rightarrow> byte list \<Rightarrow> (byte list \<times> nat) res"
where
  "server_scan acc 0 i msg_start bytes = Inr ([], msg_start)"
| "server_scan acc (Suc k) i msg_start bytes =
     (if i \<ge> length bytes then Inl OutOfBounds
      else if bytes ! i = 0 then
        rbind (server_message acc (of_nat (i - msg_start)) (drop msg_start bytes)) (\<lambda>out.
        rbind (server_scan acc k (Suc i) (Suc i) bytes) (\<lambda>(out', m). Inr (out @ out', m)))
      else server_scan acc k (Suc i) msg_start bytes)"

definition server_process ::
  "(byte list \<Rightarrow> byte list) \<Rightarrow> u32 \<Rightarrow> byte list \<Rightarrow> (byte list \<times> u32) res"
where
  "server_process acc n bytes =
     rbind (server_scan acc (unat n) 0 0 bytes) (\<lambda>(out, m). Inr (out, of_nat m))"

definition errno_would_block :: "u32 \<Rightarrow> bool" where
  "errno_would_block errno \<longleftrightarrow> errno = EAGAIN"

definition server_halt :: "int \<Rightarrow> bool \<Rightarrow> u32 \<Rightarrow> bool" where
  "server_halt bytes pollhup errno =
     (if bytes = - 1 then \<not> errno_would_block errno
      else if bytes = 0 then pollhup
      else False)"

definition read_errno :: "read_out \<Rightarrow> u32" where
  "read_errno r = (case r of Read_err e \<Rightarrow> e | Read_ok _ \<Rightarrow> 0)"

definition read_bytes :: "read_out \<Rightarrow> byte list" where
  "read_bytes r = (case r of Read_err _ \<Rightarrow> [] | Read_ok bs \<Rightarrow> bs)"

text \<open>One round of \<open>server_routine\<close>'s loop; a \<open>break\<close> clears \<open>s_running\<close>.\<close>

definition server_round ::
  "(byte list \<Rightarrow> byte list) \<Rightarrow> (int \<Rightarrow> u16 \<Rightarrow> poll_out) \<Rightarrow> read_out \<Rightarrow> server_t \<Rightarrow> server_t res"
where
  "server_round acc kpoll rd s =
     (let (events, ep) = network_poll kpoll (s_ep s) (POLLIN OR POLLERR);
          s1 = s\<lparr>s_ep := ep\<rparr>
      in if flagged events (ucast POLLNVAL) then Inr (s1\<lparr>s_running := False\<rparr>)
         else if \<not> flagged events (ucast POLLIN) then Inr s1
         else
           let bytes = network_read rd in
           rbind (opt_res OutOfBounds (mem_write (unat (s_used s1)) (read_bytes rd) (s_buf s1)))
             (\<lambda>buf.
           if server_halt bytes (flagged events (ucast POLLHUP)) (read_errno rd)
           then Inr (s1\<lparr>s_buf := buf, s_running := False\<rparr>)
           else
             let s2 = s1\<lparr>s_buf := buf, s_received := s_received s1 + word_of_int bytes,
                         s_used := s_used s1 + word_of_int bytes\<rparr> in
             rbind (server_process acc (s_used s2) (s_buf s2)) (\<lambda>(out, processed).
             let s3 = s2\<lparr>s_sent := s_sent s2 @ out\<rparr> in
             if processed = 0 then Inr s3
             else
               rbind (opt_res OutOfBounds
                 (mem_move 0 (unat processed) (unat (s_used s3 - processed)) (s_buf s3))) (\<lambda>buf'.
               Inr (s3\<lparr>s_buf := buf', s_used := s_used s3 - processed\<rparr>)))))"

text \<open>The thread: rounds until the end point disconnects or the loop is left, one kernel answer
  and one read result per round.\<close>

fun server_routine ::
  "(byte list \<Rightarrow> byte list) \<Rightarrow> ((int \<Rightarrow> u16 \<Rightarrow> poll_out) \<times> read_out) list \<Rightarrow> server_t \<Rightarrow> server_t res"
where
  "server_routine acc [] s = Inr s"
| "server_routine acc ((kpoll, rd) # es) s =
     (if disconnected (s_ep s) \<or> \<not> s_running s then Inr s
      else rbind (server_round acc kpoll rd s) (server_routine acc es))"

text \<open>\<open>server_init\<close> starts the thread unless there is one; \<open>server_term\<close> joins it.\<close>

definition server_init :: "endpoint_t \<Rightarrow> server_t option \<Rightarrow> server_t option" where
  "server_init ep thread =
     (case thread of Some t \<Rightarrow> Some t | None \<Rightarrow> Some (server_start ep))"

text \<open>The join waits until the thread has returned: \<open>Some\<close> of whether a thread was joined, or
  \<open>None\<close> while the thread still runs.\<close>

definition server_term :: "server_t option \<Rightarrow> bool option" where
  "server_term thread =
     (case thread of
        None \<Rightarrow> Some False
      | Some t \<Rightarrow> if disconnected (s_ep t) \<or> \<not> s_running t then Some True else None)"

section \<open>Framing\<close>

definition frame :: "byte list \<Rightarrow> byte list" where
  "frame m = le32 (of_nat (Suc (length m))) @ str ''000'' @ [0] @ m @ [0]"

definition frames :: "byte list list \<Rightarrow> byte list" where
  "frames ms = concat (map frame ms)"

lemma frames_simps [simp]:
  "frames [] = []" "frames (m # ms) = frame m @ frames ms"
  "frames (ms @ ns) = frames ms @ frames ns"
  by (simp_all add: frames_def)

lemma length_frame [simp]: "length (frame m) = 9 + length m"
  by (simp add: frame_def)

lemma server_message_frame:
  assumes "\<And>bs. acc bs = bs" and "length m < 2 ^ 31"
  shows "server_message acc (of_nat (length m)) (m @ 0 # rest) = Inr (frame m)"
proof -
  have "unat (of_nat (Suc (length m)) :: u32) = Suc (length m)"
    using assms(2) by (intro unat_of_nat32) simp
  then show ?thesis
    using assms(1) by (simp add: server_message_def mem_read_def frame_def add.commute)
qed

lemma server_scan_frames:
  assumes "\<And>bs. acc bs = bs" and "length buf < 2 ^ 31"
    and "i + k \<le> length buf" and "ms \<le> i" and "0 \<notin> set (take (i - ms) (drop ms buf))"
  shows "server_scan acc k i ms buf =
    Inr (frames (finished 0 (take (i + k - ms) (drop ms buf))),
         i + k - length (pending 0 (take (i + k - ms) (drop ms buf))))"
  using assms(3-5)
proof (induction k arbitrary: i ms)
  case 0
  then show ?case by simp
next
  case (Suc k)
  let ?m = "take (i - ms) (drop ms buf)"
  have i: "i < length buf" using Suc.prems by simp
  have m: "drop ms buf = ?m @ buf ! i # drop (Suc i) buf"
    using Suc.prems(2) i
    by (metis Cons_nth_drop_Suc append_take_drop_id drop_drop le_add_diff_inverse2)
  show ?case
  proof (cases "buf ! i = 0")
    case True
    have data: "take (Suc (i + k) - ms) (drop ms buf) = ?m @ 0 # take k (drop (Suc i) buf)"
      using True Suc.prems i by (subst m) (simp add: Suc_diff_le)
    have "nul_free ?m" using Suc.prems(3) by (simp add: nul_free_def)
    have len: "length ?m = i - ms" using i Suc.prems(2) by simp
    have msg: "server_message acc (of_nat (i - ms)) (drop ms buf) = Inr (frame ?m)"
      using server_message_frame [of acc ?m "drop (Suc i) buf"] assms(1,2) m True len i by simp
    have "server_scan acc k (Suc i) (Suc i) buf =
        Inr (frames (finished 0 (take k (drop (Suc i) buf))),
             Suc i + k - length (pending 0 (take k (drop (Suc i) buf))))"
      using Suc.IH [of "Suc i" "Suc i"] Suc.prems by simp
    then show ?thesis
      using True i msg Suc.prems(3) by (simp add: data)
  next
    case False
    have "take (Suc i - ms) (drop ms buf) = ?m @ [buf ! i]"
      using Suc.prems(2) i by (subst m) (simp add: Suc_diff_le)
    then show ?thesis
      using Suc.IH [of "Suc i" ms] Suc.prems False i by simp
  qed
qed

lemma server_process_frames:
  assumes "\<And>bs. acc bs = bs" and "unat n \<le> length buf" and "length buf < 2 ^ 31"
  shows "server_process acc n buf =
    Inr (frames (finished 0 (take (unat n) buf)),
         of_nat (unat n - length (pending 0 (take (unat n) buf))))"
  using server_scan_frames [of acc buf 0 "unat n" 0] assms
  by (simp add: server_process_def)

text \<open>Looking at more bytes than the buffer has always ends in an access outside it.\<close>

lemma server_scan_overrun:
  "length buf < i + k \<Longrightarrow> i \<le> length buf \<Longrightarrow> server_scan acc k i ms buf = Inl OutOfBounds"
proof (induction k arbitrary: i ms)
  case (Suc k)
  have "server_message acc n p = Inl OutOfBounds \<or> (\<exists>out. server_message acc n p = Inr out)" for n p
    by (cases "mem_read 0 (unat (n + 1)) p") (auto simp: server_message_def)
  then show ?case
    using Suc.IH [of "Suc i"] Suc.prems by (cases "buf ! i = 0") (auto, metis rbind_simps)
qed simp

section \<open>Reassembly\<close>

text \<open>
  The thread's invariant after it has received the bytes \<open>bs\<close>: what it sent are the frames of
  the complete messages, what it keeps is the unfinished rest.
\<close>

definition server_inv :: "byte list \<Rightarrow> server_t \<Rightarrow> bool" where
  "server_inv bs s \<longleftrightarrow>
     length (s_buf s) = server_recv_max \<and> unat (s_used s) \<le> server_recv_max \<and>
     take (unat (s_used s)) (s_buf s) = pending 0 bs \<and> s_sent s = frames (finished 0 bs) \<and>
     s_running s \<and> \<not> disconnected (s_ep s)"

text \<open>An answer of the kernel that a chunk of bytes has arrived and nothing else happened.\<close>

definition readable :: "int \<Rightarrow> u16 \<Rightarrow> poll_out" where
  "readable fd events = Poll_ok POLLIN"

lemma server_inv_start [simp]: "\<not> disconnected ep \<Longrightarrow> server_inv [] (server_start ep)"
  by (simp add: server_inv_def server_start_def)

lemma server_round_inv:
  assumes acc: "\<And>bs. acc bs = bs" and inv: "server_inv bs s"
    and room: "length (pending 0 bs) + length c \<le> server_recv_max" and "c \<noteq> []"
  shows "\<exists>s'. server_round acc readable (Read_ok c) s = Inr s' \<and> server_inv (bs @ c) s'"
proof -
  define u where "u = unat (s_used s)"
  have b: "length (s_buf s) = 4096" "u \<le> 4096" "take u (s_buf s) = pending 0 bs"
    using inv by (simp_all add: server_inv_def server_recv_max_def u_def)
  have u: "length (pending 0 bs) = u" using b by (metis length_take min.absorb2)
  define buf where "buf = pending 0 bs @ c @ drop (u + length c) (s_buf s)"
  have buf: "mem_write u c (s_buf s) = Some buf" "length buf = 4096"
    using b room u by (simp_all add: mem_write_def buf_def server_recv_max_def)
  define n where "n = s_used s + of_nat (length c)"
  have "length c < 2 ^ 32" using room by (simp add: server_recv_max_def)
  then have n: "unat n = u + length c"
    using room u unfolding n_def u_def
    by (subst unat_add_small) (simp_all add: unat_of_nat32 server_recv_max_def)
  define p where "p = pending 0 (pending 0 bs @ c)"
  have data: "take (unat n) buf = pending 0 bs @ c"
    using u by (simp add: n buf_def)
  have p: "length p \<le> unat n" 
    using length_pending_le [of 0 "pending 0 bs @ c"] u by (simp add: n p_def)
  have proc: "server_process acc n buf =
      Inr (frames (finished 0 (pending 0 bs @ c)), of_nat (unat n - length p))"
    using server_process_frames [of acc n buf] acc b(2) buf(2) data n room u
    by (simp add: p_def server_recv_max_def)
  define d where "d = unat n - length p"
  have d: "unat (of_nat d :: u32) = d" "unat (n - of_nat d) = length p" "d + length p = unat n"
  proof -
    show d32: "unat (of_nat d :: u32) = d"
      using u32_lt [of n] by (intro unat_of_nat32) (simp add: d_def)
    show sum: "d + length p = unat n" using p by (simp add: d_def)
    show "unat (n - of_nat d) = length p"
      using sum d32 by (subst unat_sub) (simp_all add: word_le_nat_alt)
  qed
  obtain e where e: "pending 0 bs @ c = e @ p"
    using stream_split [of "pending 0 bs @ c" 0] by (simp add: p_def)
  have le: "length e = d"
    using arg_cong [OF e, of length] d(3) u n by simp
  then have same: "d = 0 \<Longrightarrow> pending 0 (pending 0 bs @ c) = pending 0 bs @ c"
    using e by (simp add: p_def)
  from le have tail: "take (length p) (drop d buf) = p"
    using e by (simp add: buf_def flip: append_assoc)
  have move: "mem_move 0 d (length p) buf = Some (p @ drop (length p) buf)"
    using d(3) n room u buf(2) tail
    by (simp add: mem_move_def mem_read_def mem_write_def server_recv_max_def)
  have zero: "(of_nat d :: u32) = 0 \<longleftrightarrow> d = 0"
    using d(1) by auto
  obtain ep where poll: "network_poll readable (s_ep s) (POLLIN OR POLLERR) = (scast POLLIN, ep)"
    and ep: "\<not> disconnected ep"
    using inv by (simp add: network_poll_def readable_def Let_def server_inv_def flagged_def poll_bits)
  have ev: "\<not> flagged POLLIN POLLNVAL" "flagged POLLIN POLLIN"
    by (simp_all add: flagged_def poll_bits)
  have halt: "\<not> server_halt (int (length c)) h e" for h e
    using \<open>c \<noteq> []\<close> by (simp add: server_halt_def)
  let ?s = "s\<lparr>s_ep := ep, s_buf := if d = 0 then buf else p @ drop (length p) buf,
      s_received := s_received s + of_nat (length c), s_used := n - of_nat d,
      s_sent := s_sent s @ frames (finished 0 (pending 0 bs @ c))\<rparr>"
  have "server_round acc readable (Read_ok c) s = Inr ?s"
    using buf(1) proc move zero d(1,2) poll ev halt
    by (auto simp: server_round_def Let_def network_read_def read_bytes_def u_def n_def d_def)
  moreover have "server_inv (bs @ c) ?s"
    using inv buf(2) d ep n data p same room u
    by (auto simp: server_inv_def complete_append [of 0 bs] pending_append [of 0 bs] p_def
        server_recv_max_def)
  ultimately show ?thesis by blast
qed

text \<open>The answers of the kernel when the client's bytes arrive in the chunks \<open>cs\<close>.\<close>

definition arrivals :: "byte list list \<Rightarrow> ((int \<Rightarrow> u16 \<Rightarrow> poll_out) \<times> read_out) list" where
  "arrivals cs = map (\<lambda>c. (readable, Read_ok c)) cs"

text \<open>Chunks the kernel can deliver: none is empty, and none is longer than the room left in the
  receive buffer.\<close>

fun deliverable :: "byte list \<Rightarrow> byte list list \<Rightarrow> bool" where
  "deliverable bs [] = True"
| "deliverable bs (c # cs) =
     (c \<noteq> [] \<and> length (pending 0 bs) + length c \<le> server_recv_max \<and> deliverable (bs @ c) cs)"

lemma server_routine_inv:
  assumes "\<And>bs. acc bs = bs" and "server_inv bs s" and "deliverable bs cs"
  shows "\<exists>s'. server_routine acc (arrivals cs) s = Inr s' \<and> server_inv (bs @ concat cs) s'"
  using assms(2,3)
proof (induction cs arbitrary: bs s)
  case Nil
  then show ?case by (auto simp: arrivals_def)
next
  case (Cons c cs)
  obtain s1 where s1: "server_round acc readable (Read_ok c) s = Inr s1" "server_inv (bs @ c) s1"
    using server_round_inv [OF assms(1) Cons.prems(1)] Cons.prems(2) by auto
  have "disconnected (s_ep s) = False" "s_running s"
    using Cons.prems(1) by (simp_all add: server_inv_def)
  then show ?case
    using s1 Cons.IH [OF s1(2)] Cons.prems(2) by (simp add: arrivals_def)
qed

section \<open>Properties\<close>

text \<open>C8: However the client's bytes are cut into reads, the thread sends exactly one frame per
  complete message, in order, and keeps exactly the unfinished rest: the output depends on the
  byte stream only.\<close>

theorem server_chunking_independent:
  assumes "\<And>bs. acc bs = bs" and "\<not> disconnected ep" and "deliverable [] cs"
  shows "\<exists>s. server_routine acc (arrivals cs) (server_start ep) = Inr s \<and>
    s_sent s = frames (finished 0 (concat cs)) \<and>
    take (unat (s_used s)) (s_buf s) = pending 0 (concat cs) \<and> s_running s"
proof -
  obtain s where "server_routine acc (arrivals cs) (server_start ep) = Inr s"
    "server_inv ([] @ concat cs) s"
    using server_routine_inv [OF assms(1) server_inv_start [OF assms(2)] assms(3)] by blast
  then show ?thesis by (auto simp: server_inv_def)
qed

theorem server_chunking_independent_witness:
  "\<exists>s. server_routine (\<lambda>bs. bs) (arrivals [[97], [98, 0, 99], [0, 100]]) (server_start endpoint_init)
     = Inr s \<and> s_sent s = frames [[97, 98], [99]]"
  using server_chunking_independent [of "\<lambda>bs. bs" endpoint_init "[[97], [98, 0, 99], [0, 100]]"]
  by (auto simp: endpoint_init_def server_recv_max_def)

text \<open>A read that would block.\<close>

lemma would_block_round:
  assumes "fst (network_poll kpoll (s_ep s) (POLLIN OR POLLERR)) = scast POLLIN"
    and "unat (s_used s) \<le> length (s_buf s)"
  shows "server_process acc (s_used s - 1) (s_buf s) = Inl f \<Longrightarrow> server_round acc kpoll (Read_err EAGAIN) s = Inl f"
    and "server_process acc (s_used s - 1) (s_buf s) = Inr ([], 0) \<Longrightarrow> server_round acc kpoll (Read_err EAGAIN) s =
      Inr (s\<lparr>s_ep := snd (network_poll kpoll (s_ep s) (POLLIN OR POLLERR)), s_received := s_received s - 1,
             s_used := s_used s - 1\<rparr>)"
proof -
  obtain ep where "network_poll kpoll (s_ep s) (POLLIN OR POLLERR) = (scast POLLIN, ep)"
    using assms(1) by (metis prod.collapse)
  moreover have "\<not> flagged POLLIN POLLNVAL" "flagged POLLIN POLLIN"
    by (simp_all add: flagged_def poll_bits)
  moreover have "mem_write (unat (s_used s)) [] (s_buf s) = Some (s_buf s)"
    using assms(2) by (simp add: mem_write_def)
  ultimately show "server_process acc (s_used s - 1) (s_buf s) = Inl f \<Longrightarrow>
      server_round acc kpoll (Read_err EAGAIN) s = Inl f"
    "server_process acc (s_used s - 1) (s_buf s) = Inr ([], 0) \<Longrightarrow> server_round acc kpoll (Read_err EAGAIN) s =
      Inr (s\<lparr>s_ep := snd (network_poll kpoll (s_ep s) (POLLIN OR POLLERR)), s_received := s_received s - 1,
             s_used := s_used s - 1\<rparr>)"
    by (simp_all add: server_round_def Let_def network_read_def read_bytes_def read_errno_def
        server_halt_def errno_would_block_def)
qed

text \<open>C36: A read that would block (\<open>EAGAIN\<close>), after a poll that has reported input, is not an end of the loop, but its -1 is added to the
  counters all the same. If the server has an unfinished message in its buffer, the last byte of it
  is lost: the counter is one less, nothing is sent, and the thread goes on. If the buffer is empty,
  the counter wraps to \<open>2 ^ 32 - 1\<close> and the scan for messages leaves the buffer.\<close>

theorem server_eagain:
  assumes "server_inv bs s" and "\<And>bs. acc bs = bs"
    and "fst (network_poll kpoll (s_ep s) (POLLIN OR POLLERR)) = scast POLLIN"
  shows "if pending 0 bs = [] then server_round acc kpoll (Read_err EAGAIN) s = Inl OutOfBounds
    else \<exists>s'. server_round acc kpoll (Read_err EAGAIN) s = Inr s' \<and>
      unat (s_used s') = length (pending 0 bs) - 1 \<and>
      take (unat (s_used s')) (s_buf s') = butlast (pending 0 bs) \<and>
      s_received s' = s_received s - 1 \<and> s_sent s' = s_sent s \<and> s_running s'"
proof -
  have inv: "length (s_buf s) = 4096" "unat (s_used s) \<le> 4096" "take (unat (s_used s)) (s_buf s) = pending 0 bs"
    "s_running s"
    using assms(1) by (simp_all add: server_inv_def server_recv_max_def)
  have used: "unat (s_used s) = length (pending 0 bs)"
    using inv(1,2) by (simp flip: inv(3))
  have "unat (s_used s) \<le> length (s_buf s)" using inv(1,2) by simp
  note round = would_block_round [OF assms(3) this, of acc]
  show ?thesis
  proof (cases "pending 0 bs = []")
    case True
    then have "s_used s = 0" using used by (simp add: unat_eq_zero)
    moreover have "unat (- 1 :: u32) = 4294967295"
      by (simp add: unsigned_minus_1_eq_mask mask_eq_exp_minus_1)
    then have "server_process acc (- 1) (s_buf s) = Inl OutOfBounds"
      using inv(1) by (simp add: server_process_def server_scan_overrun)
    ultimately show ?thesis using round(1) True by simp
  next
    case False
    define u where "u = unat (s_used s - 1)"
    have u: "u = length (pending 0 bs) - 1"
    proof -
      have "1 \<le> unat (s_used s)" using False used by (cases "pending 0 bs") simp_all
      then have "(1 :: u32) \<le> s_used s" by (simp add: word_le_nat_alt)
      then show ?thesis using used unat_sub [of 1 "s_used s"] by (simp add: u_def)
    qed
    have "butlast (take (unat (s_used s)) (s_buf s)) = take (unat (s_used s) - 1) (s_buf s)"
      using inv(1,2) by (simp add: butlast_take)
    then have kept: "take u (s_buf s) = butlast (pending 0 bs)" unfolding inv(3) u used [symmetric] by simp
    moreover have "0 \<notin> set (butlast (pending 0 bs))"
      using pending_free [of 0 bs] in_set_butlastD by metis
    ultimately have free: "finished 0 (take u (s_buf s)) = []" "pending 0 (take u (s_buf s)) = take u (s_buf s)"
      by simp_all
    have le: "unat (s_used s - 1) \<le> length (s_buf s)" "length (take u (s_buf s)) = u"
      using u used inv(1,2) by (simp_all flip: u_def)
    have "server_process acc (s_used s - 1) (s_buf s) = Inr ([], 0)"
      using server_process_frames [OF assms(2) le(1)] inv(1) free le(2) by (simp add: u_def)
    from round(2) [OF this] show ?thesis using False inv(4) kept u by (auto simp: u_def)
  qed
qed

text \<open>From an empty buffer, and after half a message.\<close>

theorem server_eagain_witness:
  "server_round (\<lambda>bs. bs) (\<lambda>_ _. Poll_ok POLLIN) (Read_err EAGAIN) (server_start endpoint_init) =
     Inl OutOfBounds \<and>
   (\<exists>s s'. server_round (\<lambda>bs. bs) readable (Read_ok [97, 98]) (server_start endpoint_init) = Inr s \<and>
     server_round (\<lambda>bs. bs) readable (Read_err EAGAIN) s = Inr s' \<and> take (unat (s_used s')) (s_buf s') = [97])"
proof -
  have start: "server_inv [] (server_start endpoint_init)" by (simp add: endpoint_init_def)
  obtain s where s: "server_round (\<lambda>bs. bs) readable (Read_ok [97, 98]) (server_start endpoint_init) = Inr s"
    "server_inv ([] @ [97, 98]) s"
    using server_round_inv [OF refl start, of "[97, 98]"] by (auto simp: server_recv_max_def)
  have poll: "fst (network_poll readable (s_ep s) (POLLIN OR POLLERR)) = scast POLLIN"
    by (simp add: network_poll_def readable_def Let_def)
  show ?thesis
    using server_eagain [OF start refl, where kpoll = "\<lambda>_ _. Poll_ok POLLIN"] server_eagain [OF s(2) refl poll] s(1)
    by (auto simp: network_poll_def Let_def)
qed

end
