(* ===== verification/Connection.thy ===== *)
theory Connection
  imports Record_Log Network_Server
begin

unbundle bit_operations_syntax

text \<open>
  \<^verbatim>\<open>connection.c\<close>: the client's side. It sends the recorded input to the server, and sorts
  the frames that come back into one record per player.
\<close>

section \<open>State\<close>

definition max_player :: nat where
  "max_player = 4"

datatype conn_status = CONN_OK | CONN_TERM | CONN_CHANGE | CONN_CORRUPT

definition receive_size :: nat where
  "receive_size = 4096"

record conn_t =
  c_buf :: "byte list"
  c_used :: int
  bytes_received :: u32
  bytes_processed :: "u32 list"
  messages_processed :: "u32 list"
  buffering :: bool
  client_ep :: endpoint_t
  server_ep :: endpoint_t
  c_sent :: "byte list"

definition conn_start :: conn_t where
  "conn_start =
     \<lparr>c_buf = replicate receive_size 0, c_used = 0, bytes_received = 0,
      bytes_processed = replicate max_player 0, messages_processed = replicate max_player 0,
      buffering = False, client_ep = endpoint_init, server_ep = endpoint_init, c_sent = []\<rparr>"

section \<open>Operations\<close>

text \<open>A \<open>char\<close> is signed.\<close>

definition digit_atoi :: "byte \<Rightarrow> int" where
  "digit_atoi c = sint c - 48"

fun fixed_atoi :: "byte list \<Rightarrow> int" where
  "fixed_atoi (a # b # c # _) = digit_atoi a * 100 + digit_atoi b * 10 + digit_atoi c"
| "fixed_atoi _ = 0"

text \<open>
  \<open>connection_init\<close>. Without a host, a socket pair and the server thread; with one, the remote
  end point, polled once per entry of \<open>polls\<close> until it is ready (\<open>Some 1\<close>) or gone
  (\<open>Some 0\<close>); \<open>None\<close> while it still waits.
\<close>

fun connection_wait :: "(int \<Rightarrow> u16 \<Rightarrow> poll_out) list \<Rightarrow> conn_t \<Rightarrow> int option \<times> conn_t" where
  "connection_wait [] c = (None, c)"
| "connection_wait (kpoll # polls) c =
     (let (ready, ep) = network_ready kpoll (client_ep c); c1 = c\<lparr>client_ep := ep\<rparr>
      in if ready then (Some 1, c1)
         else if disconnected ep then (Some 0, c1)
         else connection_wait polls c1)"

definition connection_init ::
  "byte list option \<Rightarrow> (int \<times> int) option \<Rightarrow> (byte list \<Rightarrow> byte list \<Rightarrow> addrinfo option) \<Rightarrow>
   (addrinfo \<Rightarrow> int) \<Rightarrow> u32 option \<Rightarrow> (int \<Rightarrow> u16 \<Rightarrow> poll_out) list \<Rightarrow> fd_table \<Rightarrow>
   server_t option \<Rightarrow> conn_t \<Rightarrow> (int option \<times> fd_table \<times> server_t option \<times> conn_t) res"
where
  "connection_init host sv getaddrinfo sock conn polls t thread c =
     (case host of
        None \<Rightarrow>
          let (_, cep, sep, t1) = network_socketpair sv (client_ep c) (server_ep c) t
          in Inr (Some 1, t1, server_init sep thread, c\<lparr>client_ep := cep, server_ep := sep\<rparr>)
      | Some h \<Rightarrow>
          rbind (network_configure getaddrinfo sock h (str ''4000'') t) (\<lambda>(_, ep, t1).
          let (_, ep1) = network_connect conn ep;
              (r, c1) = connection_wait polls (c\<lparr>client_ep := ep1\<rparr>)
          in Inr (r, t1, thread, c1)))"

definition connection_io ::
  "(int \<Rightarrow> u16 \<Rightarrow> poll_out) \<Rightarrow> read_out \<Rightarrow> conn_t \<Rightarrow> (bool \<times> conn_t) res"
where
  "connection_io kpoll rd c =
     (if disconnected (client_ep c) then Inr (False, c)
      else
        let (events, ep) = network_poll kpoll (client_ep c) (POLLIN OR POLLOUT OR POLLERR);
            c1 = c\<lparr>client_ep := ep\<rparr>
        in if \<not> flagged events (ucast POLLOUT) then Inr (False, c1)
           else if \<not> flagged events (ucast POLLIN) then Inr (True, c1)
           else
             let bytes = network_read rd;
                 c2 = c1\<lparr>bytes_received := bytes_received c1 + word_of_int bytes\<rparr>
             in rbind (opt_res OutOfBounds
                         (mem_write (nat (c_used c)) (read_bytes rd) (c_buf c))) (\<lambda>buf.
                if bytes = - 1 then Inr (False, c2)
                else
                  let c3 = c2\<lparr>c_buf := buf, c_used := c_used c2 + bytes\<rparr>
                  in if flagged events (ucast POLLHUP) then Inr (bytes \<noteq> 0, c3)
                     else Inr (True, c3)))"

text \<open>
  The loop of \<open>connection_processing\<close>. A negative player number would index below the array;
  the sum \<open>8 + *block_len\<close> is an \<open>int\<close>.
\<close>

fun processing_loop ::
  "nat \<Rightarrow> allocator \<Rightarrow> rw_t list \<Rightarrow> conn_t \<Rightarrow> (bool \<times> rw_t list \<times> conn_t) res"
where
  "processing_loop 0 alc recording c = Inl Diverge"
| "processing_loop (Suc fuel) alc recording c =
     (if \<not> c_used c \<ge> 8 then Inr (True, recording, c)
      else
        let block_len = sint (rd32 (c_buf c)); len = 8 + block_len in
        if len \<ge> 2 ^ 31 then Inl SignedOverflow
        else if c_used c < len then Inr (True, recording, c)
        else
          let client_id = fixed_atoi (drop 4 (c_buf c)) in
          if client_id \<ge> int max_player then Inl CrashCall
          else if client_id < 0 then Inl OutOfBounds
          else
            let p = nat client_id; rw = recording ! p in
            if rw_rec rw = None then
              rbind (record_alloc alc) (\<lambda>r.
              Inr (False, recording[p := rw\<lparr>rw_rec := Some r\<rparr>], c))
            else
              let c1 = c\<lparr>messages_processed := (messages_processed c)[p := messages_processed c ! p + 1],
                         bytes_processed :=
                           (bytes_processed c)[p := bytes_processed c ! p + word_of_int len]\<rparr>
              in rbind (rw_append alc (word_of_int (block_len - 1)) (drop 8 (c_buf c1)) rw) (\<lambda>rw'.
                 rbind (if len < 0 then Inl OutOfBounds
                        else opt_res OutOfBounds
                               (mem_move 0 (nat len) (receive_size - nat len) (c_buf c1))) (\<lambda>buf.
                 processing_loop fuel alc (recording[p := rw'])
                   (c1\<lparr>c_buf := buf, c_used := c_used c1 - len\<rparr>))))"

definition connection_processing ::
  "allocator \<Rightarrow> rw_t list \<Rightarrow> conn_t \<Rightarrow> (bool \<times> rw_t list \<times> conn_t) res"
where
  "connection_processing alc recording c =
     processing_loop (Suc (nat (c_used c))) alc recording c"

text \<open>
  The sending loop of \<open>connection_sync\<close>; \<open>kwrite bs\<close> is the kernel's answer to a write of
  \<open>bs\<close>. The loop runs once per missing command, at most \<open>2 ^ 32\<close> times.
\<close>

fun sync_loop ::
  "nat \<Rightarrow> (byte list \<Rightarrow> write_out) \<Rightarrow> u32 \<Rightarrow> rw_t \<Rightarrow> conn_t \<Rightarrow>
   (conn_status \<times> rw_t \<times> conn_t) res"
where
  "sync_loop 0 kwrite target input c = Inl Diverge"
| "sync_loop (Suc fuel) kwrite target input c =
     (if \<not> target > command_count (rw_read input) then Inr (CONN_OK, input, c)
      else
        rbind (rw_fetch input) (\<lambda>(cmd, cmd_len, input1).
        case cmd of
          None \<Rightarrow> Inr (CONN_CORRUPT, input1, c)
        | Some p \<Rightarrow>
            let n = cmd_len + 1 in
            rbind (opt_res OutOfBounds (mem_read 0 (unat n) p)) (\<lambda>bs.
            let written = network_write (kwrite bs);
                c1 = c\<lparr>c_sent := c_sent c @ take (nat written) bs,
                       buffering := (buffering c \<or> word_of_int written \<noteq> n)\<rparr>
            in sync_loop fuel kwrite target input1 c1)))"

definition connection_sync ::
  "(int \<Rightarrow> u16 \<Rightarrow> poll_out) \<Rightarrow> read_out \<Rightarrow> (byte list \<Rightarrow> write_out) \<Rightarrow> allocator \<Rightarrow> u32 \<Rightarrow>
   rw_t \<Rightarrow> rw_t list \<Rightarrow> conn_t \<Rightarrow> (conn_status \<times> rw_t \<times> rw_t list \<times> conn_t) res"
where
  "connection_sync kpoll rd kwrite alc target input game c =
     rbind (connection_io kpoll rd c) (\<lambda>(ok, c1).
     if \<not> ok then Inr (CONN_TERM, input, game, c1)
     else
       rbind (connection_processing alc game c1) (\<lambda>(same, game1, c2).
       if \<not> same then Inr (CONN_CHANGE, input, game1, c2)
       else
         rbind (sync_loop (Suc (unat (target - command_count (rw_read input)))) kwrite target input c2)
           (\<lambda>(st, input1, c3). Inr (st, input1, game1, c3))))"

text \<open>The descriptors \<open>connection_term\<close> closes; then it waits for the server thread.\<close>

definition connection_term ::
  "server_t option \<Rightarrow> conn_t \<Rightarrow> int list \<times> bool option \<times> conn_t"
where
  "connection_term thread c =
     (let (fd1, cep) = endpoint_term (client_ep c);
          (fd2, sep) = endpoint_term (server_ep c)
      in (fd1 @ fd2, server_term thread, c\<lparr>client_ep := cep, server_ep := sep\<rparr>))"

section \<open>Frames on the client's side\<close>

definition pframe :: "nat \<times> byte list \<Rightarrow> byte list" where
  "pframe pm =
     le32 (of_nat (Suc (length (snd pm)))) @ [48, 48, 48 + of_nat (fst pm), 0] @ snd pm @ [0]"

definition pframes :: "(nat \<times> byte list) list \<Rightarrow> byte list" where
  "pframes ks = concat (map pframe ks)"

definition from_player :: "nat \<Rightarrow> (nat \<times> byte list) list \<Rightarrow> byte list list" where
  "from_player p ks = map snd (filter (\<lambda>k. fst k = p) ks)"

lemma pframes_simps [simp]:
  "pframes [] = []" "pframes (k # ks) = pframe k @ pframes ks"
  by (simp_all add: pframes_def)

lemma from_player_simps [simp]:
  "from_player p [] = []"
  "from_player p (k # ks) = (if fst k = p then snd k # from_player p ks else from_player p ks)"
  by (simp_all add: from_player_def)

lemma length_pframe [simp]: "length (pframe k) = 9 + length (snd k)"
  by (simp add: pframe_def)

lemma frame_pframe: "frame m = pframe (0, m)"
  by (simp add: frame_def pframe_def ch_def)

lemma frames_pframes: "frames ms = pframes (map (Pair 0) ms)"
  by (induction ms) (simp_all add: frame_pframe)

lemma sint_le32:
  assumes "length m < 4096"
  shows "sint (of_nat (Suc (length m)) :: u32) = 1 + int (length m)"
proof -
  have u: "unat (of_nat (Suc (length m)) :: u32) = Suc (length m)"
    using assms by (intro unat_of_nat32) simp
  then have "uint (of_nat (Suc (length m)) :: u32) = int (Suc (length m))"
    by (simp only: uint_nat)
  moreover have "unat (of_nat (Suc (length m)) :: u32) < 2 ^ 31"
    unfolding u using assms by simp
  ultimately show ?thesis using sint_u32_small by simp
qed

lemma fixed_atoi_digits: "p < 4 \<Longrightarrow> fixed_atoi (48 # 48 # (48 + of_nat p) # r) = int p"
  by (auto simp: digit_atoi_def numeral_eq_Suc less_Suc_eq)

text \<open>What the receiver reads off a frame at the front of its buffer.\<close>

lemma frame_header:
  assumes "buf = pframe (p, m) @ rest" and "p < 4" and "length m < 4096"
  shows "sint (rd32 buf) = 1 + int (length m)" and "fixed_atoi (drop 4 buf) = int p"
    and "drop 8 buf = m @ 0 # rest"
  using assms
  by (simp_all add: pframe_def sint_le32 fixed_atoi_digits del: of_nat_Suc fixed_atoi.simps)

section \<open>Sorting frames into the players' records\<close>

text \<open>
  The buffer part of the state: \<open>holds_bytes c bs\<close> says that the receive buffer carries the
  bytes \<open>bs\<close>. Every player that has a record has a log of \<open>L p\<close> messages, \<open>K p\<close> read.
\<close>

definition holds_bytes :: "conn_t \<Rightarrow> byte list \<Rightarrow> bool" where
  "holds_bytes c bs \<longleftrightarrow>
     length (c_buf c) = receive_size \<and> length bs \<le> receive_size \<and> c_used c = int (length bs) \<and>
     take (length bs) (c_buf c) = bs"

definition players_log ::
  "rw_t list \<Rightarrow> (nat \<Rightarrow> byte list list) \<Rightarrow> (nat \<Rightarrow> nat) \<Rightarrow> bool" where
  "players_log game L K \<longleftrightarrow>
     length game = max_player \<and>
     (\<forall>p < max_player. rw_rec (game ! p) = None \<or> rw_log (game ! p) (L p) (K p))"

definition joined :: "rw_t list \<Rightarrow> nat \<Rightarrow> bool" where
  "joined game p \<longleftrightarrow> p < max_player \<and> rw_rec (game ! p) \<noteq> None"

lemma processing_step:
  assumes bytes: "holds_bytes c (pframe (p, m) @ rest)"
    and game: "players_log game L K" "joined game p"
    and fit: "log_fits (L p) m" and alc: "\<And>n. alc n \<noteq> None"
  shows "\<exists>game' c'. processing_loop (Suc fuel) alc game c = processing_loop fuel alc game' c' \<and>
    holds_bytes c' rest \<and> players_log game' (L(p := L p @ [m])) K \<and>
    (\<forall>q. joined game' q = joined game q) \<and> c_sent c' = c_sent c \<and> client_ep c' = client_ep c"
proof -
  let ?l = "9 + length m"
  have p: "p < 4" "p < length game" "rw_rec (game ! p) \<noteq> None"
    using game by (simp_all add: joined_def players_log_def max_player_def)
  have log: "rw_log (game ! p) (L p) (K p)"
    using game p by (auto simp: players_log_def max_player_def)
  have len: "length (c_buf c) = 4096" "?l + length rest \<le> 4096"
    "c_used c = int (?l + length rest)"
    using bytes by (simp_all add: holds_bytes_def receive_size_def)
  have buf: "c_buf c = pframe (p, m) @ rest @ drop (?l + length rest) (c_buf c)"
    using take_eq_split [of "?l + length rest" "c_buf c" "pframe (p, m) @ rest"] bytes
    by (simp add: holds_bytes_def)
  have head: "sint (rd32 (c_buf c)) = 1 + int (length m)" "fixed_atoi (drop 4 (c_buf c)) = int p"
    "drop 8 (c_buf c) = m @ 0 # rest @ drop (?l + length rest) (c_buf c)"
    using frame_header [OF buf p(1)] len(2) by simp_all
  obtain rw' where rw': "rw_append alc (of_nat (length m)) (drop 8 (c_buf c)) (game ! p) = Inr rw'"
    "rw_log rw' (L p @ [m]) (K p)"
    using rw_append_log [OF log fit, of alc "0 # rest @ drop (?l + length rest) (c_buf c)"] alc head(3)
    by auto
  have "mem_move 0 ?l (receive_size - ?l) (c_buf c) =
      Some (drop ?l (c_buf c) @ drop (receive_size - ?l) (c_buf c))"
    using len by (intro mem_move_down) (simp add: receive_size_def)
  moreover have "drop ?l (c_buf c) = rest @ drop (?l + length rest) (c_buf c)"
    by (subst buf) simp
  ultimately have move: "mem_move 0 ?l (receive_size - ?l) (c_buf c) =
      Some (rest @ drop (?l + length rest) (c_buf c) @ drop (receive_size - ?l) (c_buf c))"
    by simp
  have rec: "rw_rec rw' \<noteq> None" using rw'(2) by (auto simp: rw_log_def)
  let ?buf = "rest @ drop (?l + length rest) (c_buf c) @ drop (receive_size - ?l) (c_buf c)"
  let ?c = "c\<lparr>messages_processed := (messages_processed c)[p := messages_processed c ! p + 1],
      bytes_processed := (bytes_processed c)[p := bytes_processed c ! p + word_of_int (int ?l)],
      c_buf := ?buf, c_used := c_used c - int ?l\<rparr>"
  have nums: "8 + (1 + int (length m)) = int ?l" "\<not> int ?l \<ge> 2 ^ 31" "\<not> c_used c < int ?l"
    "c_used c \<ge> 8" "word_of_int (1 + int (length m) - 1) = (of_nat (length m) :: u64)"
    using len by simp_all
  have "processing_loop (Suc fuel) alc game c = processing_loop fuel alc (game[p := rw']) ?c"
    using p rw'(1) move
    by (simp only: processing_loop.simps nums head Let_def max_player_def)
      (auto simp: head(3) nat_add_distrib)
  moreover have "holds_bytes ?c rest"
    using len by (simp add: holds_bytes_def receive_size_def)
  moreover have "players_log (game[p := rw']) (L(p := L p @ [m])) K"
    using game(1) rw'(2) p by (auto simp: players_log_def nth_list_update max_player_def)
  moreover have "joined (game[p := rw']) q = joined game q" for q
    using p rec by (auto simp: joined_def nth_list_update max_player_def)
  ultimately show ?thesis
    by (intro exI [of _ "game[p := rw']"] exI [of _ ?c]) simp
qed

text \<open>A proper prefix of a frame stops the loop: the header or the body is not complete yet.\<close>

definition partial_frame :: "byte list \<Rightarrow> bool" where
  "partial_frame bs \<longleftrightarrow> (\<exists>k r. bs @ r = pframe k \<and> r \<noteq> [] \<and> length (snd k) < 4096)"

lemma partial_frame_Nil [simp]: "partial_frame []"
  by (auto simp: partial_frame_def pframe_def intro!: exI [of _ "[]"])

lemma processing_stop:
  assumes "holds_bytes c part" and "partial_frame part"
  shows "processing_loop (Suc fuel) alc game c = Inr (True, game, c)"
proof (cases "c_used c \<ge> 8")
  case True
  obtain k r where k: "part @ r = pframe k" "r \<noteq> []" "length (snd k) < 4096"
    using assms(2) by (auto simp: partial_frame_def)
  have used: "c_used c = int (length part)" "length part \<le> receive_size"
    using assms(1) by (simp_all add: holds_bytes_def)
  have "length part + length r = 9 + length (snd k)"
    using arg_cong [OF k(1), of length] by simp
  moreover have "length r > 0" using k(2) by simp
  ultimately have lt: "c_used c < 8 + (1 + int (length (snd k)))" using used by linarith
  have "4 \<le> length part" using True used by simp
  then have "take 4 part = take 4 (pframe k)"
    by (simp flip: k(1))
  then have "take 4 part = le32 (of_nat (Suc (length (snd k))))"
    by (simp add: pframe_def del: of_nat_Suc)
  then have "part = le32 (of_nat (Suc (length (snd k)))) @ drop 4 part"
    by (rule take_eq_split)
  moreover have "c_buf c = part @ drop (length part) (c_buf c)"
    using assms(1) by (intro take_eq_split) (simp add: holds_bytes_def)
  ultimately have "c_buf c = le32 (of_nat (Suc (length (snd k)))) @
      (drop 4 part @ drop (length part) (c_buf c))"
    by (metis append_assoc)
  then have "rd32 (c_buf c) = of_nat (Suc (length (snd k)))"
    by (metis rd32_le32)
  then have "sint (rd32 (c_buf c)) = 1 + int (length (snd k))"
    using k(3) by (simp only: sint_le32)
  then show ?thesis
    using True lt k(3) by (simp add: Let_def)
qed simp

declare processing_loop.simps [simp del]

lemma processing_loop_frames:
  assumes "holds_bytes c (pframes ks @ part)" and "partial_frame part"
    and "players_log game L K" and "\<forall>(p, m) \<in> set ks. joined game p \<and> nul_free m \<and> length m < 4096"
    and "\<forall>p < max_player. length (encode 0 (L p @ from_player p ks)) + 4096 \<le> log_limit"
    and "\<And>n. alc n \<noteq> None" and "length ks < fuel"
  shows "\<exists>game' c'. processing_loop fuel alc game c = Inr (True, game', c') \<and>
    holds_bytes c' part \<and> players_log game' (\<lambda>p. L p @ from_player p ks) K \<and>
    (\<forall>q. joined game' q = joined game q) \<and> c_sent c' = c_sent c \<and> client_ep c' = client_ep c"
  using assms
proof (induction ks arbitrary: c game L fuel)
  case Nil
  then obtain f where "fuel = Suc f" by (cases fuel) auto
  then show ?case using Nil.prems processing_stop [of c part f alc game] by simp
next
  case (Cons k ks)
  obtain p m where k: "k = (p, m)" by (cases k)
  obtain f where f: "fuel = Suc f" using Cons.prems(7) by (cases fuel) auto
  have p: "p < max_player" using Cons.prems(4) k by (auto simp: joined_def)
  have fit: "log_fits (L p) m"
    using Cons.prems(4,5) k p by (auto simp: log_fits_def)
  define L1 where "L1 = L(p := L p @ [m])"
  have L: "L1 q @ from_player q ks = L q @ from_player q (k # ks)" for q
    by (simp add: k L1_def)
  obtain game1 c1 where 1: "processing_loop fuel alc game c = processing_loop f alc game1 c1"
    "holds_bytes c1 (pframes ks @ part)" "players_log game1 L1 K"
    "\<forall>q. joined game1 q = joined game q" "c_sent c1 = c_sent c" "client_ep c1 = client_ep c"
    using processing_step [of c p m "pframes ks @ part" game L K alc f] Cons.prems k f fit
    by (auto simp: L1_def)
  have "\<exists>game' c'. processing_loop f alc game1 c1 = Inr (True, game', c') \<and>
    holds_bytes c' part \<and> players_log game' (\<lambda>q. L1 q @ from_player q ks) K \<and>
    (\<forall>q. joined game' q = joined game1 q) \<and> c_sent c' = c_sent c1 \<and> client_ep c' = client_ep c1"
  proof (rule Cons.IH [OF 1(2) Cons.prems(2) 1(3)])
    show "\<forall>(p, m) \<in> set ks. joined game1 p \<and> nul_free m \<and> length m < 4096"
      using Cons.prems(4) 1(4) by auto
    show "\<forall>q < max_player. length (encode 0 (L1 q @ from_player q ks)) + 4096 \<le> log_limit"
      using Cons.prems(5) by (simp only: L)
    show "alc n \<noteq> None" for n by (rule Cons.prems(6))
    show "length ks < f" using Cons.prems(7) f by simp
  qed
  then show ?case
    using 1 by (auto simp: L)
qed


section \<open>Receiving\<close>

text \<open>A prefix of a stream of frames is some of the frames and a part of the next one.\<close>

definition fits_first :: "(nat \<times> byte list) list \<Rightarrow> byte list \<Rightarrow> bool" where
  "fits_first ks part \<longleftrightarrow> (case ks of [] \<Rightarrow> True | k # _ \<Rightarrow> length part < length (pframe k))"

lemma fits_first_simps [simp]:
  "fits_first [] part" "fits_first (k # ks) part \<longleftrightarrow> length part < 9 + length (snd k)"
  by (simp_all add: fits_first_def)

lemma prefix_of_frames:
  assumes "bs @ r = pframes ks" and "\<forall>k \<in> set ks. length (snd k) < 4096"
  shows "\<exists>j part. j \<le> length ks \<and> bs = pframes (take j ks) @ part \<and>
    part @ r = pframes (drop j ks) \<and> partial_frame part \<and> fits_first (drop j ks) part"
  using assms
proof (induction ks arbitrary: bs)
  case Nil
  then show ?case by simp
next
  case (Cons k ks)
  show ?case
  proof (cases "length bs < length (pframe k)")
    case True
    let ?r = "drop (length bs) (pframe k)"
    have "take (length bs) (bs @ r) = take (length bs) (pframe k @ pframes ks)"
      using Cons.prems(1) by simp
    then have "bs = take (length bs) (pframe k)" using True by simp
    then have "bs @ ?r = pframe k" by (metis append_take_drop_id)
    moreover have "?r \<noteq> []" using True by simp
    moreover have "length (snd k) < 4096" using Cons.prems(2) by simp
    ultimately have "partial_frame bs"
      unfolding partial_frame_def by blast
    then show ?thesis
      using Cons.prems(1) True by (intro exI [of _ 0] exI [of _ bs]) simp
  next
    case False
    obtain b where b: "bs = pframe k @ b" "b @ r = pframes ks"
    proof -
      have "take (length (pframe k)) bs = pframe k"
        using arg_cong [OF Cons.prems(1), of "take (length (pframe k))"] False by simp
      then have "bs = pframe k @ drop (length (pframe k)) bs" by (rule take_eq_split)
      then show ?thesis using Cons.prems(1) that
        by (metis append_assoc pframes_simps(2) same_append_eq)
    qed
    obtain j part where j: "j \<le> length ks" "b = pframes (take j ks) @ part"
      "part @ r = pframes (drop j ks)" "partial_frame part" "fits_first (drop j ks) part"
      using Cons.IH [OF b(2)] Cons.prems(2) by auto
    then show ?thesis
      using b by (intro exI [of _ "Suc j"] exI [of _ part]) simp
  qed
qed

lemma from_player_append [simp]: "from_player p (a @ b) = from_player p a @ from_player p b"
  by (simp add: from_player_def)

lemma length_encode_append [simp]:
  "length (encode z (a @ b)) = length (encode z a) + length (encode z b)"
  by simp

definition input_ready :: "int \<Rightarrow> u16 \<Rightarrow> poll_out" where
  "input_ready fd events = Poll_ok (POLLIN OR POLLOUT)"

definition output_ready :: "int \<Rightarrow> u16 \<Rightarrow> poll_out" where
  "output_ready fd events = Poll_ok POLLOUT"

lemma output_ready_io:
  assumes "\<not> disconnected (client_ep c)"
  shows "\<exists>ep. connection_io output_ready rd c = Inr (True, c\<lparr>client_ep := ep\<rparr>) \<and>
    \<not> disconnected ep"
proof -
  have "flagged POLLOUT POLLOUT" "\<not> flagged POLLOUT POLLIN" "\<not> flagged POLLOUT POLLERR"
    "flagged POLLOUT (POLLIN OR POLLOUT)"
    by (simp_all add: flagged_def poll_bits)
  then show ?thesis
    using assms
    by (intro exI [of _ "client_ep c\<lparr>connected := connecting (client_ep c)\<rparr>"])
      (simp add: connection_io_def network_poll_def output_ready_def Let_def)
qed

lemma input_ready_io:
  assumes "\<not> disconnected (client_ep c)" and "holds_bytes c part"
    and "length part + length chunk \<le> receive_size"
  shows "\<exists>c'. connection_io input_ready (Read_ok chunk) c = Inr (True, c') \<and>
    holds_bytes c' (part @ chunk) \<and> \<not> disconnected (client_ep c') \<and> c_sent c' = c_sent c"
proof -
  have bits: "flagged (POLLIN OR POLLOUT) POLLOUT" "flagged (POLLIN OR POLLOUT) POLLIN"
    "\<not> flagged (POLLIN OR POLLOUT) POLLERR" "\<not> flagged (POLLIN OR POLLOUT) POLLHUP"
    by (simp_all add: flagged_def poll_bits)
  have b: "length (c_buf c) = receive_size" "c_used c = int (length part)"
    "take (length part) (c_buf c) = part"
    using assms(2) by (simp_all add: holds_bytes_def)
  let ?buf = "part @ chunk @ drop (length part + length chunk) (c_buf c)"
  have wr: "mem_write (length part) chunk (c_buf c) = Some ?buf"
    using b assms(3) by (simp add: mem_write_def)
  have "network_read (Read_ok chunk) \<noteq> - 1" by (simp add: network_read_def)
  then show ?thesis
    using assms bits b(1,2) wr
    by (simp add: connection_io_def network_poll_def input_ready_def Let_def read_bytes_def
        network_read_def holds_bytes_def)
qed

text \<open>
  The frames \<open>ks\<close> are on their way: a part of the first one in the buffer, the rest (\<open>avail\<close>)
  still in the socket.
\<close>

definition receiving ::
  "(nat \<times> byte list) list \<Rightarrow> byte list \<Rightarrow> conn_t \<Rightarrow> bool" where
  "receiving ks avail c \<longleftrightarrow>
     (\<exists>part. holds_bytes c part \<and> partial_frame part \<and> part @ avail = pframes ks \<and>
        fits_first ks part \<and> \<not> disconnected (client_ep c))"

text \<open>What the frames \<open>ks\<close> have to satisfy to be put in the records.\<close>

definition acceptable :: "rw_t list \<Rightarrow> (nat \<Rightarrow> byte list list) \<Rightarrow> (nat \<times> byte list) list \<Rightarrow> bool" where
  "acceptable game L ks \<longleftrightarrow>
     (\<forall>(p, m) \<in> set ks. joined game p \<and> nul_free m \<and> length m + 9 \<le> receive_size) \<and>
     (\<forall>p < max_player. length (encode 0 (L p @ from_player p ks)) + 4096 \<le> log_limit)"

text \<open>
  Rounds of \<open>connection_io\<close> and \<open>connection_processing\<close>. In a round the kernel hands over at
  most \<open>n\<close> of the bytes in the socket and not more than the room the client offers.
\<close>

fun client_rounds ::
  "allocator \<Rightarrow> nat list \<Rightarrow> byte list \<Rightarrow> rw_t list \<Rightarrow> conn_t \<Rightarrow> (byte list \<times> rw_t list \<times> conn_t) res"
where
  "client_rounds alc [] avail game c = Inr (avail, game, c)"
| "client_rounds alc (n # ns) avail game c =
     (let chunk = take (min n (receive_size - nat (c_used c))) avail in
      rbind (connection_io input_ready (Read_ok chunk) c) (\<lambda>(_, c1).
      rbind (connection_processing alc game c1) (\<lambda>(_, game1, c2).
      client_rounds alc ns (drop (length chunk) avail) game1 c2)))"

lemma pframes_append [simp]: "pframes (a @ b) = pframes a @ pframes b"
  by (simp add: pframes_def)

lemma length_pframes_ge: "length ks \<le> length (pframes ks)"
  by (induction ks) auto

lemma client_round:
  assumes "receiving ks avail c" and "players_log game L K" and "acceptable game L ks"
    and "\<And>n. alc n \<noteq> None" and "0 < n"
  shows "\<exists>chunk j game' c1 c'. chunk = take (min n (receive_size - nat (c_used c))) avail \<and>
    (avail \<noteq> [] \<longrightarrow> chunk \<noteq> []) \<and>
    connection_io input_ready (Read_ok chunk) c = Inr (True, c1) \<and>
    connection_processing alc game c1 = Inr (True, game', c') \<and>
    receiving (drop j ks) (drop (length chunk) avail) c' \<and>
    players_log game' (\<lambda>p. L p @ from_player p (take j ks)) K \<and>
    (\<forall>q. joined game' q = joined game q)"
proof -
  obtain part where part: "holds_bytes c part" "partial_frame part" "part @ avail = pframes ks"
    "\<not> disconnected (client_ep c)" "fits_first ks part"
    using assms(1) by (auto simp: receiving_def)
  define chunk where "chunk = take (min n (receive_size - nat (c_used c))) avail"
  have used: "c_used c = int (length part)" using part(1) by (simp add: holds_bytes_def)
  have short: "\<forall>k \<in> set ks. length (snd k) + 9 \<le> receive_size"
    using assms(3) by (auto simp: acceptable_def)
  then have lt: "\<forall>k \<in> set ks. length (snd k) < 4096" by (auto simp: receive_size_def)
  have "length part + length chunk \<le> receive_size"
    using used part(1) by (auto simp: chunk_def holds_bytes_def)
  then obtain c1 where c1: "connection_io input_ready (Read_ok chunk) c = Inr (True, c1)"
    "holds_bytes c1 (part @ chunk)" "\<not> disconnected (client_ep c1)"
    using input_ready_io [OF part(4,1)] by blast
  have avail: "avail = chunk @ drop (length chunk) avail"
    unfolding chunk_def by (rule take_eq_split) (simp only: take_length_take)
  then have "(part @ chunk) @ drop (length chunk) avail = pframes ks"
    using part(3) by simp
  then obtain j part' where j: "part @ chunk = pframes (take j ks) @ part'"
    "part' @ drop (length chunk) avail = pframes (drop j ks)" "partial_frame part'" "fits_first (drop j ks) part'"
    using prefix_of_frames lt by blast
  have split: "from_player p ks = from_player p (take j ks) @ from_player p (drop j ks)" for p
    by (metis append_take_drop_id from_player_append)
  have c1_buf: "holds_bytes c1 (pframes (take j ks) @ part')" using c1(2) j(1) by simp
  have "length (take j ks) \<le> length (part @ chunk)"
    using length_pframes_ge [of "take j ks"] j(1) by simp
  then have fuel: "length (take j ks) < Suc (nat (c_used c1))"
    using c1(2) by (simp add: holds_bytes_def)
  have "\<forall>(p, m) \<in> set (take j ks). joined game p \<and> nul_free m \<and> length m < 4096"
    using assms(3) lt by (fastforce simp: acceptable_def dest: in_set_takeD)
  moreover have "\<forall>p < max_player. length (encode 0 (L p @ from_player p (take j ks))) + 4096 \<le> log_limit"
    using assms(3) by (fastforce simp: acceptable_def split)
  ultimately obtain game' c' where run:
    "connection_processing alc game c1 = Inr (True, game', c')" "holds_bytes c' part'"
    "players_log game' (\<lambda>p. L p @ from_player p (take j ks)) K"
    "\<forall>q. joined game' q = joined game q" "client_ep c' = client_ep c1"
    unfolding connection_processing_def
    using processing_loop_frames [where alc = alc, OF c1_buf j(3) assms(2) _ _ assms(4) fuel] by blast
  have "chunk \<noteq> []" if ne: "avail \<noteq> []"
  proof -
    obtain k ks' where ks: "ks = k # ks'"
      using part(3) ne by (cases ks) auto
    have "length part < receive_size"
      using part(5) short ks by fastforce
    then show ?thesis using ne assms(5) used by (simp add: chunk_def)
  qed
  moreover have "receiving (drop j ks) (drop (length chunk) avail) c'"
    using run(2,5) j(2-4) c1(3) by (auto simp: receiving_def)
  ultimately show ?thesis
    using c1(1) run chunk_def by blast
qed


lemma client_rounds_receive:
  assumes "receiving ks avail c" and "players_log game L K" and "acceptable game L ks"
    and "\<And>n. alc n \<noteq> None" and "\<forall>n \<in> set ns. 0 < n" and "length avail \<le> length ns"
    and "ns \<noteq> [] \<or> ks = []"
  shows "\<exists>game' c'. client_rounds alc ns avail game c = Inr ([], game', c') \<and>
    players_log game' (\<lambda>p. L p @ from_player p ks) K \<and> (\<forall>q. joined game' q = joined game q) \<and>
    c_used c' = 0"
  using assms(1-3,5-7)
proof (induction ns arbitrary: ks avail c game L)
  case Nil
  then have "c_used c = 0"
    by (auto simp: receiving_def holds_bytes_def)
  then show ?case using Nil by auto
next
  case (Cons n ns)
  obtain chunk j game1 c1 c2 where 1:
    "chunk = take (min n (receive_size - nat (c_used c))) avail" "avail \<noteq> [] \<longrightarrow> chunk \<noteq> []"
    "connection_io input_ready (Read_ok chunk) c = Inr (True, c1)"
    "connection_processing alc game c1 = Inr (True, game1, c2)"
    "receiving (drop j ks) (drop (length chunk) avail) c2"
    "players_log game1 (\<lambda>p. L p @ from_player p (take j ks)) K"
    "\<forall>q. joined game1 q = joined game q"
    using client_round [where alc = alc and n = n, OF Cons.prems(1-3) assms(4)] Cons.prems(4)
    by (simp del: append_take_drop_id) blast
  let ?L = "\<lambda>p. L p @ from_player p (take j ks)"
  have split: "from_player p (take j ks) @ from_player p (drop j ks) = from_player p ks" for p
    by (metis append_take_drop_id from_player_append)
  have le: "length (drop (length chunk) avail) \<le> length ns"
    using Cons.prems(5) 1(2) by (cases avail; cases chunk) auto
  have acc: "acceptable game1 ?L (drop j ks)"
    unfolding acceptable_def
  proof (intro conjI allI impI)
    show "\<forall>(p, m) \<in> set (drop j ks). joined game1 p \<and> nul_free m \<and> length m + 9 \<le> receive_size"
      using Cons.prems(3) 1(7) by (auto simp: acceptable_def dest: in_set_dropD)
    show "length (encode 0 (?L p @ from_player p (drop j ks))) + 4096 \<le> log_limit"
      if "p < max_player" for p
      using Cons.prems(3) that by (simp only: acceptable_def append_assoc split)
  qed
  have "ns \<noteq> [] \<or> drop j ks = []"
  proof (cases ns)
    case Nil
    then have "drop (length chunk) avail = []" using le by simp
    then show ?thesis
      using 1(5) by (cases "drop j ks") (auto simp: receiving_def)
  qed simp
  then obtain game' c' where "client_rounds alc ns (drop (length chunk) avail) game1 c2 = Inr ([], game', c')"
    "players_log game' (\<lambda>p. ?L p @ from_player p (drop j ks)) K"
    "\<forall>q. joined game' q = joined game1 q" "c_used c' = 0"
    using Cons.IH [OF 1(5,6) acc] Cons.prems(4) le by auto
  moreover have "client_rounds alc (n # ns) avail game c =
      client_rounds alc ns (drop (length chunk) avail) game1 c2"
    using 1(3,4) by (simp add: Let_def flip: 1(1))
  ultimately show ?case
    using 1(7) by (simp only: split append_assoc) auto
qed

section \<open>Sending\<close>

lemma rw_log_count: "rw_log rw ms k \<Longrightarrow> unat (command_count (rw_read rw)) = k"
proof -
  assume log: "rw_log rw ms k"
  then have "k \<le> length (encode 0 ms)" "length (encode 0 ms) \<le> log_limit"
    using length_encode_ge [of ms 0] by (auto simp: rw_log_def)
  then have "unat (of_nat k :: u32) = k"
    by (intro unat_of_nat32) (simp add: log_limit_def)
  then show ?thesis
    using log by (auto simp: rw_log_def offset_at_def min_absorb2)
qed

lemma sync_loop_sends:
  assumes "rw_log input ms k" and "k \<le> t" and "t \<le> length ms"
    and "unat target = t" and "t - k < fuel" and "\<And>bs. kwrite bs = Write_ok (length bs)"
  shows "\<exists>input'. sync_loop fuel kwrite target input c =
      Inr (CONN_OK, input', c\<lparr>c_sent := c_sent c @ encode 0 (drop k (take t ms))\<rparr>) \<and>
    rw_log input' ms t"
  using assms(1,2,5)
proof (induction fuel arbitrary: k input c)
  case 0
  then show ?case by simp
next
  case (Suc fuel)
  have count: "target > command_count (rw_read input) \<longleftrightarrow> k < t"
    using rw_log_count [OF Suc.prems(1)] assms(4) by (simp add: word_less_nat_alt)
  show ?case
  proof (cases "k < t")
    case False
    then show ?thesis using count Suc.prems by simp
  next
    case True
    then have k: "k < length ms" using assms(3) by simp
    let ?m = "ms ! k"
    obtain cmd input1 rest where 1: "rw_fetch input = Inr (Some cmd, of_nat (length ?m), input1)"
      "cmd = ?m @ 0 # rest" "rw_log input1 ms (Suc k)"
      using rw_fetch_log [OF Suc.prems(1) k] by auto
    have "length ?m < 2 ^ 30"
      using length_encode_le [OF nth_mem [OF k], of 0] Suc.prems(1)
      by (auto simp: rw_log_def log_limit_def)
    then have n: "unat (of_nat (length ?m) + 1 :: u64) = Suc (length ?m)"
      by (simp add: unat_add_small unat_of_nat64)
    have same: "word_of_int (int (Suc (length ?m))) = (of_nat (length ?m) + 1 :: u64)"
      by simp
    have read: "mem_read 0 (Suc (length ?m)) cmd = Some (?m @ [0])"
      by (simp add: 1(2) mem_read_def)
    have "drop k (take t ms) = ?m # drop (Suc k) (take t ms)"
      using True assms(3) Cons_nth_drop_Suc [of k "take t ms"] by simp
    moreover have "sync_loop (Suc fuel) kwrite target input c =
        sync_loop fuel kwrite target input1 (c\<lparr>c_sent := c_sent c @ ?m @ [0]\<rparr>)"
      using count True 1(1) read n same
      by (simp add: Let_def assms(6) network_write_def add.commute)
    ultimately show ?thesis
      using Suc.IH [OF 1(3), of "c\<lparr>c_sent := c_sent c @ ?m @ [0]\<rparr>"] Suc.prems(3) True
      by auto
  qed
qed

section \<open>Properties\<close>

lemma holds_bytes_partial:
  assumes "holds_bytes c part" and "partial_frame part"
  shows "connection_processing alc game c = Inr (True, game, c)"
  using processing_stop [OF assms] by (simp add: connection_processing_def)

text \<open>C7: \<open>connection_processing\<close> sorts the complete frames of its buffer into the records of the
  players they are from, keeps each player's order, stays in bounds, and leaves exactly the
  unfinished frame in the buffer.\<close>

theorem connection_demultiplexes:
  assumes "holds_bytes c (pframes ks @ part)" and "partial_frame part"
    and "players_log game L K" and "acceptable game L ks" and "\<And>n. alc n \<noteq> None"
  shows "\<exists>game' c'. connection_processing alc game c = Inr (True, game', c') \<and>
    holds_bytes c' part \<and> players_log game' (\<lambda>p. L p @ from_player p ks) K"
proof -
  have "\<forall>(p, m) \<in> set ks. joined game p \<and> nul_free m \<and> length m < 4096"
    using assms(4) by (auto simp: acceptable_def receive_size_def)
  moreover have "\<forall>p < max_player. length (encode 0 (L p @ from_player p ks)) + 4096 \<le> log_limit"
    using assms(4) by (simp add: acceptable_def)
  moreover have "length ks < Suc (nat (c_used c))"
    using assms(1) length_pframes_ge [of ks] by (simp add: holds_bytes_def)
  ultimately show ?thesis
    using processing_loop_frames [where alc = alc, OF assms(1-3) _ _ assms(5)]
    unfolding connection_processing_def by blast
qed

definition example_game :: "rw_t list" where
  "example_game =
     replicate 4 (rw_new \<lparr>rbuf = replicate 4096 0, alloc_bytes = 4096, used_bytes = 0\<rparr>)"

definition conn_with :: "byte list \<Rightarrow> conn_t" where
  "conn_with bs =
     conn_start\<lparr>c_buf := bs @ replicate (receive_size - length bs) 0, c_used := int (length bs)\<rparr>"

lemma conn_with_holds: "length bs \<le> receive_size \<Longrightarrow> holds_bytes (conn_with bs) bs"
  by (simp add: holds_bytes_def conn_with_def)

lemma conn_with_simps [simp]:
  "\<not> disconnected (client_ep (conn_with bs))" "c_sent (conn_with bs) = []"
  by (simp_all add: conn_with_def conn_start_def endpoint_init_def)

lemma example_game_log: "players_log example_game (\<lambda>_. []) (\<lambda>_. 0)"
proof -
  have "record_alloc all_succeed =
      Inr \<lparr>rbuf = replicate 4096 0, alloc_bytes = 4096, used_bytes = 0\<rparr>"
    by (simp add: record_alloc_def malloc_def all_succeed_def map_replicate_const)
  then have "rw_log (rw_new \<lparr>rbuf = replicate 4096 0, alloc_bytes = 4096, used_bytes = 0\<rparr>) [] 0"
    by (rule rw_new_log) (simp add: all_succeed_def)
  then show ?thesis
    by (simp add: players_log_def example_game_def max_player_def)
qed

lemma example_game_joined: "joined example_game p \<longleftrightarrow> p < max_player"
  by (auto simp: joined_def example_game_def max_player_def rw_new_def)

theorem connection_demultiplexes_witness:
  "\<exists>game' c'. connection_processing all_succeed example_game
      (conn_with (pframes [(0, [97]), (1, [98, 99]), (0, [100])] @ [7, 0])) = Inr (True, game', c') \<and>
    holds_bytes c' [7, 0] \<and>
    players_log game' (\<lambda>p. from_player p [(0, [97]), (1, [98, 99]), (0, [100])]) (\<lambda>_. 0)"
proof -
  let ?ks = "[(0, [97]), (1, [98, 99]), (0, [100])] :: (nat \<times> byte list) list"
  have part: "partial_frame [7, 0]"
    unfolding partial_frame_def
    by (intro exI [of _ "(0, replicate 6 0)"] exI [of _ "drop 2 (pframe (0, replicate 6 0))"])
      (simp add: pframe_def le32_def)
  have "acceptable example_game (\<lambda>_. []) ?ks"
    by (auto simp: acceptable_def example_game_joined max_player_def receive_size_def log_limit_def)
  moreover have "holds_bytes (conn_with (pframes ?ks @ [7, 0])) (pframes ?ks @ [7, 0])"
    by (rule conn_with_holds) (simp add: receive_size_def)
  ultimately show ?thesis
    using connection_demultiplexes [OF _ part example_game_log, of _ ?ks all_succeed]
    by (simp add: all_succeed_def)
qed

text \<open>The first frame of a player who has no record yet is not consumed: a record is made for
  the player, the caller is told that the set of players changed, and the buffer stays as it
  is, so that the next call delivers the frame.\<close>

theorem connection_new_player:
  assumes "holds_bytes c (pframe (p, m) @ rest)" and "p < max_player" and "length m < 4096"
    and "rw_rec (game ! p) = None" and "record_alloc alc = Inr r"
  shows "connection_processing alc game c =
    Inr (False, game[p := (game ! p)\<lparr>rw_rec := Some r\<rparr>], c)"
proof -
  have buf: "c_buf c = pframe (p, m) @ rest @ drop (9 + length m + length rest) (c_buf c)"
    using take_eq_split [of "9 + length m + length rest" "c_buf c" "pframe (p, m) @ rest"] assms(1)
    by (simp add: holds_bytes_def)
  have "p < 4" using assms(2) by (simp add: max_player_def)
  note head = frame_header(1,2) [OF buf this assms(3)]
  have "c_used c = int (9 + length m + length rest)"
    using assms(1) by (simp add: holds_bytes_def)
  then show ?thesis
    using head assms(2-5)
    by (simp add: connection_processing_def processing_loop.simps Let_def max_player_def)
qed

theorem connection_new_player_witness:
  "\<exists>r. connection_processing all_succeed (replicate 4 \<lparr>rw_rec = None, rw_read = offset_zero, rw_write = offset_zero\<rparr>)
      (conn_with (pframe (2, [97]))) =
    Inr (False, (replicate 4 \<lparr>rw_rec = None, rw_read = offset_zero, rw_write = offset_zero\<rparr>)
      [2 := \<lparr>rw_rec = Some r, rw_read = offset_zero, rw_write = offset_zero\<rparr>], conn_with (pframe (2, [97])))"
proof -
  obtain r where "record_alloc all_succeed = Inr r"
    by (simp add: record_alloc_def malloc_def all_succeed_def)
  then show ?thesis
    using connection_new_player [of "conn_with (pframe (2, [97]))" 2 "[97]" "[]"
        "replicate 4 \<lparr>rw_rec = None, rw_read = offset_zero, rw_write = offset_zero\<rparr>" all_succeed r]
      conn_with_holds [of "pframe (2, [97])"]
    by (auto simp: max_player_def receive_size_def)
qed

lemma connection_sync_state:
  assumes "rw_log input ms k" and "k \<le> t" and "t \<le> length ms" and "unat target = t"
    and "\<not> disconnected (client_ep c)" and "holds_bytes c part" and "partial_frame part"
    and "\<And>bs. kwrite bs = Write_ok (length bs)"
  shows "\<exists>input' c'. connection_sync output_ready rd kwrite alc target input game c =
      Inr (CONN_OK, input', game, c') \<and>
    rw_log input' ms t \<and> c_sent c' = c_sent c @ encode 0 (drop k (take t ms)) \<and>
    buffering c' = buffering c \<and> holds_bytes c' part \<and> \<not> disconnected (client_ep c')"
proof -
  obtain ep where io: "connection_io output_ready rd c = Inr (True, c\<lparr>client_ep := ep\<rparr>)"
    "\<not> disconnected ep"
    using output_ready_io [OF assms(5)] by blast
  have "holds_bytes (c\<lparr>client_ep := ep\<rparr>) part"
    using assms(6) by (simp add: holds_bytes_def)
  then have proc: "connection_processing alc game (c\<lparr>client_ep := ep\<rparr>) =
      Inr (True, game, c\<lparr>client_ep := ep\<rparr>)"
    using assms(7) by (rule holds_bytes_partial)
  have "unat (target - command_count (rw_read input)) = t - k"
    using rw_log_count [OF assms(1)] assms(2,4)
    by (subst unat_sub) (simp_all add: word_le_nat_alt)
  then obtain input' where "sync_loop (Suc (unat (target - command_count (rw_read input)))) kwrite
      target input (c\<lparr>client_ep := ep\<rparr>) =
      Inr (CONN_OK, input', c\<lparr>client_ep := ep, c_sent := c_sent c @ encode 0 (drop k (take t ms))\<rparr>)"
    "rw_log input' ms t"
    using sync_loop_sends [where fuel = "Suc (t - k)" and c = "c\<lparr>client_ep := ep\<rparr>",
        OF assms(1-4) _ assms(8)] by auto
  then show ?thesis
    using io proc assms(6) by (simp add: connection_sync_def holds_bytes_def)
qed

text \<open>C10: When the socket takes every write whole, a sync to a target frame sends exactly the
  recorded commands from the read offset up to the target, each with its terminator, and moves the
  read offset there.\<close>

theorem connection_sync_sends:
  assumes "rw_log input ms k" and "k \<le> t" and "t \<le> length ms" and "unat target = t"
    and "\<not> disconnected (client_ep c)" and "holds_bytes c part" and "partial_frame part"
    and "\<And>bs. kwrite bs = Write_ok (length bs)"
  shows "\<exists>input' c'. connection_sync output_ready rd kwrite alc target input game c =
      Inr (CONN_OK, input', game, c') \<and>
    rw_log input' ms t \<and> c_sent c' = c_sent c @ encode 0 (drop k (take t ms)) \<and>
    buffering c' = buffering c"
  using connection_sync_state [OF assms] by blast

text \<open>C34: A write that the kernel does not take is lost: the commands are passed over, nothing of
  them is ever sent, and the sync still reports success; only the flag \<open>buffering\<close> keeps a
  trace of it.\<close>

theorem connection_sync_drops_unsent:
  assumes "rw_log input ms k" and "k < length ms" and "unat target = Suc k"
    and "\<not> disconnected (client_ep c)" and "holds_bytes c part" and "partial_frame part"
  shows "\<exists>input' c'. connection_sync output_ready rd (\<lambda>_. Write_err EAGAIN) alc target input game c =
      Inr (CONN_OK, input', game, c') \<and>
    rw_log input' ms (Suc k) \<and> c_sent c' = c_sent c \<and> buffering c'"
proof -
  obtain ep where io: "connection_io output_ready rd c = Inr (True, c\<lparr>client_ep := ep\<rparr>)"
    using output_ready_io [OF assms(4)] by blast
  have "holds_bytes (c\<lparr>client_ep := ep\<rparr>) part"
    using assms(5) by (simp add: holds_bytes_def)
  then have proc: "connection_processing alc game (c\<lparr>client_ep := ep\<rparr>) =
      Inr (True, game, c\<lparr>client_ep := ep\<rparr>)"
    using assms(6) by (rule holds_bytes_partial)
  let ?m = "ms ! k"
  obtain cmd input1 rest where 1: "rw_fetch input = Inr (Some cmd, of_nat (length ?m), input1)"
    "cmd = ?m @ 0 # rest" "rw_log input1 ms (Suc k)"
    using rw_fetch_log [OF assms(1,2)] by auto
  have "length ?m < 2 ^ 30"
    using length_encode_le [OF nth_mem [OF assms(2)], of 0] assms(1)
    by (auto simp: rw_log_def log_limit_def)
  then have n: "unat (of_nat (length ?m) + 1 :: u64) = Suc (length ?m)"
    by (simp add: unat_add_small unat_of_nat64)
  then have n1: "- 1 \<noteq> (of_nat (length ?m) + 1 :: u64)"
  proof -
    have "unat (- 1 :: u64) = 18446744073709551615"
      by (simp add: unsigned_minus_1_eq_mask mask_eq_exp_minus_1)
    moreover have "Suc (length ?m) \<noteq> 18446744073709551615"
      using \<open>length ?m < 2 ^ 30\<close> by simp
    ultimately show ?thesis using n by (metis (no_types))
  qed
  have read: "mem_read 0 (Suc (length ?m)) cmd = Some (?m @ [0])"
    by (simp add: 1(2) mem_read_def)
  have count: "command_count (rw_read input) < target" "\<not> command_count (rw_read input1) < target"
    using rw_log_count [OF assms(1)] rw_log_count [OF 1(3)] assms(3)
    by (simp_all add: word_less_nat_alt)
  have "unat (target - command_count (rw_read input)) = 1"
    using rw_log_count [OF assms(1)] assms(3)
    by (subst unat_sub) (simp_all add: word_le_nat_alt)
  then show ?thesis
    using io proc 1(1,3) n n1 read count
    by (simp add: connection_sync_def Let_def network_write_def numeral_2_eq_2)
qed

text \<open>C35: A host that cannot be resolved is waited for without end: whatever the kernel answers,
  \<open>connection_init\<close> never reports a connection.\<close>

theorem connection_init_unresolved:
  assumes "getaddrinfo host (str ''4000'') = None"
  shows "\<exists>r c'. connection_init (Some host) sv getaddrinfo sock conn polls t thread c =
      Inr (r, t, thread, c') \<and> r \<noteq> Some 1 \<and> sfd (client_ep c') = 0"
proof -
  have wait: "\<not> connecting (client_ep c) \<Longrightarrow> \<not> connected (client_ep c) \<Longrightarrow>
      fst (connection_wait polls c) \<noteq> Some 1 \<and>
      sfd (client_ep (snd (connection_wait polls c))) = sfd (client_ep c)" for polls c
  proof (induction polls arbitrary: c)
    case (Cons kp polls)
    have "\<not> connected (snd (network_ready kp (client_ep c)))"
      "\<not> connecting (snd (network_ready kp (client_ep c)))"
      "\<not> fst (network_ready kp (client_ep c))"
      "sfd (snd (network_ready kp (client_ep c))) = sfd (client_ep c)"
      using Cons.prems
      by (auto simp: network_ready_def network_poll_def Let_def split: poll_out.splits)
    then show ?case
      using Cons.IH [of "c\<lparr>client_ep := snd (network_ready kp (client_ep c))\<rparr>"]
      by (auto simp: Let_def split: prod.splits)
  qed simp
  have "\<not> connecting endpoint_init" "\<not> connected endpoint_init" "sfd endpoint_init = 0"
    by (simp_all add: endpoint_init_def)
  then show ?thesis
    using assms wait [of "c\<lparr>client_ep := endpoint_init\<rparr>" polls]
    by (auto simp: connection_init_def network_configure_def network_connect_def Let_def
        STDERR_FILENO_def split: prod.splits)
qed

text \<open>A log of two commands, made with the program's own operations.\<close>

lemma example_log:
  "\<exists>input. rw_log input [[97], [98, 99]] 0"
proof -
  have "rw_log (example_game ! 0) [] 0"
    using example_game_log example_game_joined [of 0]
    by (fastforce simp: players_log_def joined_def max_player_def)
  then obtain a where "rw_log a [[97]] 0"
    using rw_append_log [of _ "[]" 0 "[97]" all_succeed]
    by (auto simp: log_fits_def log_limit_def all_succeed_def)
  then obtain b where "rw_log b [[97], [98, 99]] 0"
    using rw_append_log [of _ "[[97]]" 0 "[98, 99]" all_succeed]
    by (auto simp: log_fits_def log_limit_def all_succeed_def)
  then show ?thesis by blast
qed

theorem connection_sync_sends_witness:
  "\<exists>input c'. rw_log input [[97], [98, 99]] 0 \<and>
    (\<exists>input'. connection_sync output_ready (Read_ok []) (\<lambda>bs. Write_ok (length bs)) all_succeed 2 input
      example_game (conn_with []) = Inr (CONN_OK, input', example_game, c')) \<and>
    c_sent c' = [97, 0, 98, 99, 0]"
proof -
  obtain input where input: "rw_log input [[97], [98, 99]] 0" using example_log by blast
  show ?thesis
    using input connection_sync_sends [OF input, where t = 2 and target = 2 and c = "conn_with []"
        and part = "[]" and kwrite = "\<lambda>bs. Write_ok (length bs)" and rd = "Read_ok []"
        and alc = all_succeed and game = example_game] conn_with_holds [of "[]"]
    by auto
qed

theorem connection_sync_drops_unsent_witness:
  "\<exists>input input' c'. rw_log input [[97], [98, 99]] 0 \<and>
    connection_sync output_ready (Read_ok []) (\<lambda>_. Write_err EAGAIN) all_succeed 1 input
      example_game (conn_with []) = Inr (CONN_OK, input', example_game, c') \<and>
    rw_log input' [[97], [98, 99]] 1 \<and> c_sent c' = []"
proof -
  obtain input where input: "rw_log input [[97], [98, 99]] 0" using example_log by blast
  show ?thesis
    using input connection_sync_drops_unsent [OF input, where target = 1 and c = "conn_with []"
        and part = "[]" and rd = "Read_ok []" and alc = all_succeed and game = example_game]
      conn_with_holds [of "[]"]
    by auto
qed

theorem connection_init_unresolved_witness:
  "\<exists>r c'. connection_init (Some (str ''nohost'')) None (\<lambda>_ _. None) (\<lambda>_. 5) None [input_ready, input_ready]
      \<lparr>fd_flags = (\<lambda>_. None), fd_nodelay = (\<lambda>_. False)\<rparr> None conn_start =
    Inr (r, \<lparr>fd_flags = (\<lambda>_. None), fd_nodelay = (\<lambda>_. False)\<rparr>, None, c') \<and> r \<noteq> Some 1"
  using connection_init_unresolved
    [of "\<lambda>_ _. None" "str ''nohost''" None "\<lambda>_. 5" None "[input_ready, input_ready]"
        "\<lparr>fd_flags = (\<lambda>_. None), fd_nodelay = (\<lambda>_. False)\<rparr>" None conn_start]
  by auto

end
