(* ===== verification/Input.thy ===== *)
theory Input
  imports Network
begin

unbundle bit_operations_syntax

text \<open>
  \<^verbatim>\<open>input.c\<close>: lines from the standard input. The handler is a function of its arguments (the
  line's length and the memory the pointer points to) and of a state of its own.
\<close>

section \<open>State\<close>

definition input_size :: nat where
  "input_size = 4096"

definition buf_len :: nat where
  "buf_len = input_size - 1"

definition STDIN_FILENO :: int where
  "STDIN_FILENO = 0"

record input_t =
  i_buf :: "byte list"
  i_used :: int
  i_fd :: int
  i_events :: u16

definition input_start :: input_t where
  "input_start = \<lparr>i_buf = replicate input_size 0, i_used = 0, i_fd = 0, i_events = 0\<rparr>"

type_synonym 's handler = "nat \<Rightarrow> byte list \<Rightarrow> 's \<Rightarrow> 's res"

section \<open>Operations\<close>

definition input_init :: "input_t \<Rightarrow> bool \<times> input_t" where
  "input_init st =
     (True, st\<lparr>i_buf := (i_buf st)[buf_len := 0], i_fd := STDIN_FILENO, i_events := POLLIN\<rparr>)"

text \<open>The loop over the newlines of the buffer.\<close>

fun input_drain :: "nat \<Rightarrow> 's handler \<Rightarrow> 's \<Rightarrow> input_t \<Rightarrow> ('s \<times> input_t) res" where
  "input_drain 0 handler s st = Inl Diverge"
| "input_drain (Suc fuel) handler s st =
     rbind (strchr 10 (i_buf st)) (\<lambda>found.
     case found of
       None \<Rightarrow> Inr (s, st)
     | Some n \<Rightarrow>
         let buf = (i_buf st)[n := 0] in
         rbind (handler n buf s) (\<lambda>s1.
         rbind (opt_res OutOfBounds (mem_move 0 (Suc n) (input_size - Suc n) buf)) (\<lambda>buf1.
         input_drain fuel handler s1 (st\<lparr>i_buf := buf1, i_used := i_used st - int (Suc n)\<rparr>))))"

text \<open>
  One poll: \<open>kpoll\<close> answers for the descriptor, \<open>rd\<close> is what \<open>read\<close> then returns. A negative
  \<open>used_buf\<close> makes \<open>read\<close> store below the buffer.
\<close>

definition input_poll ::
  "(int \<Rightarrow> u16 \<Rightarrow> poll_out) \<Rightarrow> read_out \<Rightarrow> 's handler \<Rightarrow> 's \<Rightarrow> input_t \<Rightarrow>
   (bool \<times> 's \<times> input_t) res"
where
  "input_poll kpoll rd handler s st =
     (case kpoll (i_fd st) (i_events st) of
        Poll_err errno \<Rightarrow> Inr (errno = EINTR, s, st)
      | Poll_ok revents \<Rightarrow>
          if \<not> flagged revents POLLIN then Inr (True, s, st)
          else
            rbind (case rd of
                     Read_err _ \<Rightarrow> Inr (i_buf st)
                   | Read_ok bs \<Rightarrow>
                       if i_used st < 0 \<and> bs \<noteq> [] then Inl OutOfBounds
                       else opt_res OutOfBounds (mem_write (nat (i_used st)) bs (i_buf st)))
              (\<lambda>buf.
            rbind (input_drain input_size handler s
                     (st\<lparr>i_buf := buf, i_used := i_used st + network_read rd\<rparr>)) (\<lambda>(s1, st1).
            Inr (True, s1,
                 if i_used st1 = int buf_len then st1\<lparr>i_used := 0\<rparr> else st1))))"

definition input_shutdown :: "input_t \<Rightarrow> bool \<times> input_t" where
  "input_shutdown st = (True, st\<lparr>i_fd := 0, i_events := 0, i_used := 0\<rparr>)"

section \<open>Draining the buffer\<close>

text \<open>A handler that only depends on the line, and what it does to a list of lines.\<close>

definition on_lines :: "('s \<Rightarrow> byte list \<Rightarrow> 's) \<Rightarrow> 's handler" where
  "on_lines h n mem s = Inr (h s (take n mem))"

lemma on_lines_apply [simp]: "rbind (on_lines h n mem s) f = f (h s (take n mem))"
  by (simp add: on_lines_def)

definition terminated :: "byte list \<Rightarrow> bool" where
  "terminated buf \<longleftrightarrow> length buf = input_size \<and> last buf = 0"

lemma terminated_in: "terminated buf \<Longrightarrow> 0 \<in> set buf"
  by (metis input_size_def last_in_set length_greater_0_conv terminated_def zero_less_numeral)

text \<open>The C string in the buffer.\<close>

lemma terminated_split:
  assumes "terminated buf"
  obtains r where "buf = cstr buf @ 0 # r"
  using cstr_split [OF terminated_in [OF assms]] by blast

lemma drain_shift:
  assumes "length buf = input_size" and "buf = a @ 10 # b"
  shows "mem_move 0 (Suc (length a)) (input_size - Suc (length a)) (buf[length a := 0]) =
    Some (b @ drop (length b) (buf[length a := 0]))"
proof -
  have "mem_move 0 (Suc (length a)) (input_size - Suc (length a)) (buf[length a := 0]) =
      Some (drop (Suc (length a)) (buf[length a := 0]) @
            drop (input_size - Suc (length a)) (buf[length a := 0]))"
    using assms by (intro mem_move_down) simp_all
  moreover have "input_size - Suc (length a) = length b"
    using assms by simp
  ultimately show ?thesis using assms(2) by simp
qed

lemma input_drain_lines:
  assumes "terminated (i_buf st)" and "length (finished 10 (cstr (i_buf st))) < fuel"
  shows "\<exists>st'. input_drain fuel (on_lines h) s st =
      Inr (foldl h s (finished 10 (cstr (i_buf st))), st') \<and>
    terminated (i_buf st') \<and> cstr (i_buf st') = pending 10 (cstr (i_buf st)) \<and>
    i_used st' = i_used st - int (length (encode 10 (finished 10 (cstr (i_buf st))))) \<and>
    i_fd st' = i_fd st \<and> i_events st' = i_events st"
  using assms
proof (induction fuel arbitrary: s st)
  case 0
  then show ?case by simp
next
  case (Suc fuel)
  obtain r where buf: "i_buf st = cstr (i_buf st) @ 0 # r"
    using Suc.prems(1) by (rule terminated_split)
  define z where "z = cstr (i_buf st)"
  have z: "nul_free z" by (simp add: z_def)
  show ?case
  proof (cases "10 \<in> set z")
    case False
    have "i_buf st = z @ 0 # r" using buf by (simp add: z_def)
    then have "strchr 10 (i_buf st) = Inr None"
      using strchr_miss [of 10 z r] z False by simp
    then show ?thesis
      using Suc.prems(1) False by (intro exI [of _ st]) (simp add: z_def)
  next
    case True
    then obtain a b where ab: "z = a @ 10 # b" "10 \<notin> set a"
      by (meson split_list_first)
    have mem: "i_buf st = a @ 10 # b @ 0 # r" using buf ab(1) by (simp add: z_def)
    have free: "nul_free a" "nul_free b" using z ab(1) by (simp_all add: nul_free_def)
    have found: "strchr 10 (i_buf st) = Inr (Some (length a))"
      using ab(2) free(1) by (simp add: mem strchr_hit)
    let ?buf = "(i_buf st)[length a := 0]"
    let ?new = "b @ 0 # r @ drop (length (b @ 0 # r)) ?buf"
    have move: "mem_move 0 (Suc (length a)) (input_size - Suc (length a)) ?buf = Some ?new"
      using drain_shift [of "i_buf st" a "b @ 0 # r"] Suc.prems(1) mem
      by (simp add: terminated_def)
    let ?st = "st\<lparr>i_buf := ?new, i_used := i_used st - int (Suc (length a))\<rparr>"
    have new: "terminated ?new"
    proof -
      have "last (i_buf st) = 0" "length (i_buf st) = input_size"
        using Suc.prems(1) by (simp_all add: terminated_def)
      then show ?thesis
        by (auto simp: terminated_def mem last_append split: if_splits)
    qed
    have cstr_new: "cstr ?new = b" using free(2) by simp
    have z_eq: "cstr (i_buf st) = a @ 10 # b" using ab(1) by (simp add: z_def)
    have run: "input_drain (Suc fuel) (on_lines h) s st = input_drain fuel (on_lines h) (h s a) ?st"
      using found move by (simp add: mem)
    obtain st' where "input_drain fuel (on_lines h) (h s a) ?st = Inr (foldl h (h s a) (finished 10 b), st')"
      "terminated (i_buf st')" "cstr (i_buf st') = pending 10 b"
      "i_used st' = i_used st - int (Suc (length a)) - int (length (encode 10 (finished 10 b)))"
      "i_fd st' = i_fd st" "i_events st' = i_events st"
      using Suc.IH [of ?st "h s a"] new cstr_new Suc.prems(2) ab(2)
      by (auto simp: z_eq)
    then show ?thesis
      using run ab(2) by (intro exI [of _ st']) (simp add: z_eq)
  qed
qed

text \<open>
  A clean buffer: the unfinished line \<open>d\<close>, then zeros only. Draining keeps it clean as long as
  not more than half of the buffer is in use.
\<close>

definition clean :: "byte list \<Rightarrow> byte list" where
  "clean d = d @ replicate (input_size - length d) 0"

lemma clean_terminated: "length d < input_size \<Longrightarrow> terminated (clean d)"
  by (simp add: clean_def terminated_def)

lemma cstr_clean: "nul_free d \<Longrightarrow> length d < input_size \<Longrightarrow> cstr (clean d) = d"
  by (cases "input_size - length d") (auto simp: clean_def)

lemma drain_clean_step:
  assumes "2 * length (a @ 10 # b) \<le> input_size"
  shows "mem_move 0 (Suc (length a)) (input_size - Suc (length a))
      ((clean (a @ 10 # b))[length a := 0]) = Some (clean b)"
proof -
  define k where "k = input_size - length (a @ 10 # b)"
  have k: "Suc (length a) \<le> k" "input_size = Suc (length a) + length b + k"
    using assms by (simp_all add: k_def)
  have buf: "clean (a @ 10 # b) = a @ 10 # (b @ replicate k 0)"
    by (simp add: clean_def k_def)
  have len: "length (clean (a @ 10 # b)) = input_size"
    by (simp add: buf k(2))
  have upd: "(clean (a @ 10 # b))[length a := 0] = a @ 0 # (b @ replicate k 0)"
    by (simp add: buf)
  have "drop (length (b @ replicate k 0)) (a @ 0 # (b @ replicate k 0)) = replicate (Suc (length a)) 0"
    using k(1) by (simp add: drop_Cons' replicate_append_same[symmetric])
  moreover have "replicate k 0 @ replicate (Suc (length a)) (0 :: byte) =
      replicate (input_size - length b) 0"
  proof -
    have "input_size - length b = k + Suc (length a)" using k(2) by simp
    then show ?thesis by (simp only: replicate_add)
  qed
  ultimately show ?thesis
    using drain_shift [OF len buf] upd by (simp add: clean_def)
qed

lemma input_drain_clean:
  assumes "i_buf st = clean d" and "nul_free d" and "2 * length d \<le> input_size"
    and "input_drain fuel (on_lines h) s st = Inr (s', st')"
  shows "i_buf st' = clean (pending 10 d)"
  using assms
proof (induction fuel arbitrary: s st d)
  case 0
  then show ?case by simp
next
  case (Suc fuel)
  have zeros: "clean d = d @ 0 # replicate (input_size - length d - 1) 0"
    using Suc.prems(3) by (cases "input_size - length d") (auto simp: clean_def input_size_def)
  show ?case
  proof (cases "10 \<in> set d")
    case False
    then have "strchr 10 (clean d) = Inr None"
      using strchr_miss Suc.prems(2) by (simp add: zeros)
    then show ?thesis using Suc.prems(1,4) False by simp
  next
    case True
    then obtain a b where ab: "d = a @ 10 # b" "10 \<notin> set a"
      by (meson split_list_first)
    have free: "nul_free a" "nul_free b" using Suc.prems(2) ab(1) by (simp_all add: nul_free_def)
    have "clean d = a @ 10 # (b @ 0 # replicate (input_size - length d - 1) 0)"
      by (subst zeros) (simp add: ab(1))
    then have "strchr 10 (clean d) = Inr (Some (length a))"
      using ab(2) free(1) strchr_hit by simp
    then have run: "input_drain fuel (on_lines h) (h s (take (length a) ((clean d)[length a := 0])))
        (st\<lparr>i_buf := clean b, i_used := i_used st - int (Suc (length a))\<rparr>) = Inr (s', st')"
      using Suc.prems drain_clean_step [of a b] ab(1) by simp
    then show ?thesis
      using Suc.IH [OF _ free(2) _ run] Suc.prems(3) ab by simp
  qed
qed

section \<open>Properties\<close>

text \<open>C31: Draining never runs off the buffer and always ends: from any buffer that ends in a NUL,
  the handler is called once per complete line of the buffer's C string, in order, each with its
  length, and the buffer then starts with the unfinished rest of that string.\<close>

theorem input_drain_exact:
  assumes "length (i_buf st) = input_size" and "last (i_buf st) = 0"
  shows "\<exists>st'. input_drain input_size (on_lines h) s st =
      Inr (foldl h s (finished 10 (cstr (i_buf st))), st') \<and>
    cstr (i_buf st') = pending 10 (cstr (i_buf st)) \<and>
    i_used st' = i_used st - int (length (encode 10 (finished 10 (cstr (i_buf st))))) \<and>
    length (i_buf st') = input_size \<and> last (i_buf st') = 0"
proof -
  have t: "terminated (i_buf st)" using assms by (simp add: terminated_def)
  obtain r where "i_buf st = cstr (i_buf st) @ 0 # r" using t by (rule terminated_split)
  from arg_cong [OF this, of length] have "length (cstr (i_buf st)) < input_size"
    using assms(1) by simp
  then show ?thesis
    using input_drain_lines [OF t, of input_size h s] length_complete_le [of 10 "cstr (i_buf st)"]
    by (auto simp: terminated_def)
qed

text \<open>The kernel's answers for chunks of input bytes, one per poll.\<close>

fun input_polls ::
  "'s handler \<Rightarrow> byte list list \<Rightarrow> 's \<Rightarrow> input_t \<Rightarrow> (bool \<times> 's \<times> input_t) res"
where
  "input_polls handler [] s st = Inr (True, s, st)"
| "input_polls handler (c # cs) s st =
     rbind (input_poll (\<lambda>_ ev. Poll_ok (ev AND POLLIN)) (Read_ok c) handler s st) (\<lambda>(ok, s1, st1).
     if ok then input_polls handler cs s1 st1 else Inr (False, s1, st1))"

text \<open>Chunks of text that leave half of the buffer free.\<close>

fun typed :: "byte list \<Rightarrow> byte list list \<Rightarrow> bool" where
  "typed bs [] = True"
| "typed bs (c # cs) =
     (nul_free c \<and> 2 * (length (pending 10 bs) + length c) \<le> input_size \<and> typed (bs @ c) cs)"

definition input_inv :: "byte list \<Rightarrow> input_t \<Rightarrow> bool" where
  "input_inv bs st \<longleftrightarrow>
     i_buf st = clean (pending 10 bs) \<and> i_used st = int (length (pending 10 bs)) \<and>
     nul_free (pending 10 bs) \<and> 2 * length (pending 10 bs) \<le> input_size \<and> i_events st = POLLIN"

lemma input_poll_inv:
  assumes inv: "input_inv bs st" and c: "nul_free c"
    and room: "2 * (length (pending 10 bs) + length c) \<le> input_size"
  shows "\<exists>st'. input_poll (\<lambda>_ ev. Poll_ok (ev AND POLLIN)) (Read_ok c) (on_lines h) s st =
      Inr (True, foldl h s (finished 10 (pending 10 bs @ c)), st') \<and> input_inv (bs @ c) st'"
proof -
  let ?p = "pending 10 bs" and ?d = "pending 10 bs @ c"
  have st: "i_buf st = clean ?p" "i_used st = int (length ?p)" "i_events st = POLLIN"
    "nul_free ?p" using inv by (simp_all add: input_inv_def)
  have wr: "mem_write (length ?p) c (clean ?p) = Some (clean ?d)"
    using room by (simp add: mem_write_def clean_def)
  let ?st = "st\<lparr>i_buf := clean ?d, i_used := int (length ?d)\<rparr>"
  have d: "nul_free ?d" "length ?d < input_size" "2 * length ?d \<le> input_size"
    using st(4) c room by (simp_all add: nul_free_def input_size_def)
  have cstr: "cstr (i_buf ?st) = ?d" using d by (simp add: cstr_clean)
  obtain st' where st': "input_drain input_size (on_lines h) s ?st =
      Inr (foldl h s (finished 10 ?d), st')"
    "i_used st' = int (length ?d) - int (length (encode 10 (finished 10 ?d)))"
    "i_events st' = POLLIN"
    using input_drain_lines [of ?st input_size h s] clean_terminated [OF d(2)]
      length_complete_le [of 10 ?d] d(2) st(3) unfolding cstr by auto
  have buf: "i_buf st' = clean (pending 10 ?d)"
    using input_drain_clean [OF _ d(1,3) st'(1)] by simp
  have used: "i_used st' = int (length (pending 10 ?d))"
    using st'(2) arg_cong [OF stream_split [of ?d 10], of length] by simp
  have "length (pending 10 ?d) \<le> length ?d" by (rule length_pending_le)
  then have small: "2 * length (pending 10 ?d) \<le> input_size" "i_used st' \<noteq> int buf_len"
    using d(2,3) used by (simp_all add: buf_len_def input_size_def)
  have free: "nul_free (pending 10 ?d)"
    using d(1) stream_split [of ?d 10] by (metis nul_free_def Un_iff set_append)
  have poll: "flagged (POLLIN AND POLLIN) POLLIN" by (simp add: flagged_def poll_bits)
  have "input_poll (\<lambda>_ ev. Poll_ok (ev AND POLLIN)) (Read_ok c) (on_lines h) s st =
      Inr (True, foldl h s (finished 10 ?d), st')"
    using st wr st'(1) small(2) poll
    by (simp add: input_poll_def network_read_def)
  moreover have "input_inv (bs @ c) st'"
    using buf used small(1) free st'(3) pending_append [of 10 bs c] by (simp add: input_inv_def)
  ultimately show ?thesis by blast
qed

text \<open>C9: Lines do not depend on how the text arrives: as long as the unfinished line and the next
  chunk fill at most half of the buffer, the handler is called with exactly the lines of the text,
  in order, each once.\<close>

theorem input_chunking_independent:
  assumes "typed [] cs"
  shows "\<exists>st. input_polls (on_lines h) cs s (snd (input_init input_start)) =
      Inr (True, foldl h s (finished 10 (concat cs)), st) \<and>
    i_used st = int (length (pending 10 (concat cs)))"
proof -
  have run: "input_inv bs st \<Longrightarrow> typed bs cs \<Longrightarrow> \<exists>st'. input_polls (on_lines h) cs
      (foldl h s (finished 10 bs)) st = Inr (True, foldl h s (finished 10 (bs @ concat cs)), st') \<and>
      input_inv (bs @ concat cs) st'" for bs st cs
  proof (induction cs arbitrary: bs st)
    case (Cons c cs)
    obtain st1 where "input_poll (\<lambda>_ ev. Poll_ok (ev AND POLLIN)) (Read_ok c) (on_lines h)
        (foldl h s (finished 10 bs)) st = Inr (True, foldl h s (finished 10 (bs @ c)), st1)"
      "input_inv (bs @ c) st1"
      using input_poll_inv [OF Cons.prems(1), of c h "foldl h s (finished 10 bs)"] Cons.prems(2)
      by (auto simp: complete_append [of 10 bs])
    then show ?case
      using Cons.IH [of "bs @ c" st1] Cons.prems(2) by simp
  qed auto
  have "input_inv [] (snd (input_init input_start))"
    by (simp add: input_inv_def input_init_def input_start_def clean_def buf_len_def
        input_size_def list_update_same_conv)
  from run [OF this assms] show ?thesis by (auto simp: input_inv_def)
qed

theorem input_chunking_independent_witness:
  "\<exists>st. input_polls (on_lines (\<lambda>ls l. ls @ [l])) [[97], [98, 10, 10, 99], [100, 10, 101]] []
      (snd (input_init input_start)) = Inr (True, [[97, 98], [], [99, 100]], st) \<and> i_used st = 1"
  using input_chunking_independent [of "[[97], [98, 10, 10, 99], [100, 10, 101]]"
      "\<lambda>ls l. ls @ [l]" "[]"]
  by (simp add: input_size_def)

lemma drain_hit:
  assumes "i_buf st = a @ 10 # b" and "length (i_buf st) = input_size" and "nul_free a" and "10 \<notin> set a"
  shows "input_drain (Suc fuel) (on_lines h) s st = input_drain fuel (on_lines h) (h s a)
    (st\<lparr>i_buf := b @ drop (length b) (a @ 0 # b), i_used := i_used st - int (Suc (length a))\<rparr>)"
proof -
  have "strchr 10 (i_buf st) = Inr (Some (length a))"
    using assms by (simp add: strchr_hit)
  then show ?thesis
    using drain_shift [OF assms(2,1)] by (simp add: assms(1))
qed

lemma drain_stop:
  assumes "i_buf st = z @ 0 # r" and "nul_free z" and "10 \<notin> set z"
  shows "input_drain (Suc fuel) handler s st = Inr (s, st)"
  using strchr_miss [of 10 z r] assms by simp

lemma input_size_fuel: "input_size = Suc (Suc (Suc 4093))"
  by (simp add: input_size_def)

abbreviation collect :: "byte list list handler" where
  "collect \<equiv> on_lines (\<lambda>ls l. ls @ [l])"

text \<open>What two lines leave behind in a buffer of zeros.\<close>

definition remains :: "byte list \<Rightarrow> byte list \<Rightarrow> byte list" where
  "remains l1 l2 =
     (let z = replicate (4094 - length l1 - length l2) 0;
          r = z @ drop (4095 - length l1) l1 @ 0 # l2 @ 10 # z
      in r @ drop (length r) (l2 @ 0 # r))"

lemma drain_two_lines:
  assumes "nul_free l1" "nul_free l2" "10 \<notin> set l1" "10 \<notin> set l2"
    and "2048 \<le> length l1" and "length l1 + length l2 + 2 \<le> buf_len"
    and "i_buf st = clean (l1 @ 10 # l2 @ [10])"
  shows "input_drain input_size collect s st = Inr (s @ [l1, l2],
      st\<lparr>i_buf := remains l1 l2, i_used := i_used st - int (length l1 + length l2 + 2)\<rparr>)"
proof -
  define z :: "byte list" where "z = replicate (4094 - length l1 - length l2) 0"
  define r where "r = z @ drop (4095 - length l1) l1 @ 0 # l2 @ 10 # z"
  have nz: "\<exists>z'. z = 0 # z'"
    using assms(6) by (cases "4094 - length l1 - length l2") (auto simp: z_def buf_len_def input_size_def)
  have lens: "length z = 4094 - length l1 - length l2" "length l1 + length l2 + 2 \<le> 4095"
    using assms(6) by (simp_all add: z_def buf_len_def input_size_def)
  have buf: "i_buf st = l1 @ 10 # (l2 @ 10 # z)"
    using assms(7) by (simp add: clean_def z_def input_size_def)
  have len: "length (i_buf st) = input_size"
    using lens by (simp add: buf input_size_def)
  have tail: "drop (length (l2 @ 10 # z)) (l1 @ 0 # l2 @ 10 # z) =
      drop (4095 - length l1) l1 @ 0 # l2 @ 10 # z"
  proof -
    have "Suc (4094 - length l1) = 4095 - length l1" using lens(2) by simp
    then show ?thesis using lens assms(5) by simp
  qed
  let ?st = "st\<lparr>i_buf := l2 @ 10 # r, i_used := i_used st - int (Suc (length l1))\<rparr>"
  have 1: "input_drain input_size collect s st = input_drain (Suc (Suc 4093)) collect (s @ [l1]) ?st"
    using drain_hit [OF buf len assms(1,3), of "Suc (Suc 4093)" "\<lambda>ls l. ls @ [l]" s] tail
    by (simp only: input_size_fuel r_def append_assoc append_Cons)
  have len1: "length (i_buf ?st) = input_size"
    using lens assms(5) by (simp add: r_def input_size_def)
  have 2: "input_drain (Suc (Suc 4093)) collect (s @ [l1]) ?st = input_drain (Suc 4093) collect
      ((s @ [l1]) @ [l2]) (?st\<lparr>i_buf := r @ drop (length r) (l2 @ 0 # r),
        i_used := i_used ?st - int (Suc (length l2))\<rparr>)"
    by (rule drain_hit [OF _ len1 assms(2,4)]) simp
  have rem: "remains l1 l2 = r @ drop (length r) (l2 @ 0 # r)"
    by (simp only: remains_def r_def z_def Let_def)
  obtain r' where "r @ drop (length r) (l2 @ 0 # r) = [] @ 0 # r'"
    using nz by (auto simp: r_def)
  then have "input_drain (Suc 4093) collect ((s @ [l1]) @ [l2])
      (?st\<lparr>i_buf := remains l1 l2, i_used := i_used ?st - int (Suc (length l2))\<rparr>) =
    Inr ((s @ [l1]) @ [l2],
      ?st\<lparr>i_buf := remains l1 l2, i_used := i_used ?st - int (Suc (length l2))\<rparr>)"
    unfolding rem by (intro drain_stop [where z = "[]"]) simp_all
  then show ?thesis
    unfolding 1 2 [folded rem] by (simp add: algebra_simps)
qed

lemma remains_split:
  assumes "2048 \<le> length l1" and "length l1 + length l2 + 2 \<le> buf_len" and "length l2 \<le> length l1"
  shows "\<exists>a c. remains l1 l2 = a @ l2 @ 10 # 0 # c \<and> length a = length l1 - length l2 \<and>
    length (remains l1 l2) = input_size"
proof -
  define z :: "byte list" where "z = replicate (4094 - length l1 - length l2) 0"
  obtain z' where z': "z = 0 # z'"
    using assms(2) by (cases "4094 - length l1 - length l2") (auto simp: z_def buf_len_def input_size_def)
  have lens: "length z = 4094 - length l1 - length l2" "length l1 + length l2 + 2 \<le> 4095"
    using assms(2) by (simp_all add: z_def buf_len_def input_size_def)
  define r where "r = z @ drop (4095 - length l1) l1 @ 0 # l2 @ 10 # z"
  have rem: "remains l1 l2 = r @ drop (length r) (l2 @ 0 # r)"
    by (simp only: remains_def r_def z_def Let_def)
  have "remains l1 l2 = (z @ drop (4095 - length l1) l1 @ [0]) @ l2 @ 10 # 0 #
      (z' @ drop (length r) (l2 @ 0 # r))"
    unfolding rem by (simp add: r_def z')
  moreover have "length (z @ drop (4095 - length l1) l1 @ [0]) = length l1 - length l2"
    using lens assms(1,3) by simp
  moreover have "length (remains l1 l2) = input_size"
    unfolding rem using lens assms(1,3) by (simp add: r_def input_size_def)
  ultimately show ?thesis by blast
qed

text \<open>C37: A long read of complete lines can corrupt memory. Let one read bring two lines that fit the
  buffer, the first of at least 2048 bytes. Both are handled, but every \<open>memmove\<close> leaves the old end
  of the buffer in place, so that an end of the second line survives there with its newline. If the
  next read brings exactly as many bytes as the first line is longer than the second, without a
  newline or NUL, these end just before the second line, and the two are taken for one line: the
  handler gets a line that nobody typed, the counter becomes negative, and the read after that stores
  in front of the buffer.\<close>

theorem input_stale_line:
  assumes "nul_free l1" "nul_free l2" "10 \<notin> set l1" "10 \<notin> set l2"
    and "2048 \<le> length l1" and "length l1 + length l2 + 2 \<le> buf_len"
    and "nul_free b" "10 \<notin> set b" and "length b + length l2 = length l1" and "c \<noteq> []"
  shows "\<exists>st. input_polls collect [l1 @ 10 # l2 @ [10], b] [] (snd (input_init input_start)) =
      Inr (True, [l1, l2, b @ l2], st) \<and> i_used st < 0 \<and>
    input_polls collect [l1 @ 10 # l2 @ [10], b, c] [] (snd (input_init input_start)) =
      Inl OutOfBounds"
proof -
  let ?k = "\<lambda>_ ev. Poll_ok (ev AND POLLIN)"
  have poll: "flagged (POLLIN AND POLLIN) POLLIN" by (simp add: flagged_def poll_bits)
  let ?t = "l1 @ 10 # l2 @ [10]"
  let ?s0 = "snd (input_init input_start)"
  have s0: "i_buf ?s0 = clean []" "i_used ?s0 = 0" "i_events ?s0 = POLLIN"
    by (simp_all add: input_init_def input_start_def clean_def buf_len_def
        input_size_def list_update_same_conv)
  have wr: "mem_write 0 ?t (clean []) = Some (clean ?t)"
    using assms(6) by (simp add: mem_write_def clean_def buf_len_def input_size_def)
  let ?s1 = "?s0\<lparr>i_buf := remains l1 l2, i_used := 0\<rparr>"
  have 1: "input_poll ?k (Read_ok ?t) collect [] ?s0 = Inr (True, [l1, l2], ?s1)"
    using drain_two_lines [OF assms(1-6), of "?s0\<lparr>i_buf := clean ?t, i_used := int (length ?t)\<rparr>" "[]"]
      poll s0 wr
    by (simp add: input_poll_def network_read_def buf_len_def input_size_def)
  have "length l2 \<le> length l1" using assms(9) by simp
  then obtain a r where r: "remains l1 l2 = a @ l2 @ 10 # 0 # r" "length a = length b"
    "length (remains l1 l2) = input_size"
    using remains_split [OF assms(5,6)] assms(9) by fastforce
  have wr2: "mem_write 0 b (remains l1 l2) = Some ((b @ l2) @ 10 # 0 # r)"
    using r(2) by (simp add: r(1) mem_write_def)
  let ?m = "?s0\<lparr>i_buf := (b @ l2) @ 10 # 0 # r, i_used := int (length b)\<rparr>"
  let ?new = "(0 # r) @ drop (length (0 # r)) ((b @ l2) @ 0 # 0 # r)"
  let ?s2 = "?m\<lparr>i_buf := ?new, i_used := i_used ?m - int (Suc (length (b @ l2)))\<rparr>"
  have len: "length (i_buf ?m) = input_size" using r by simp
  have "input_drain (Suc (Suc 4094)) collect [l1, l2] ?m =
      input_drain (Suc 4094) collect ([l1, l2] @ [b @ l2]) ?s2"
    using assms by (intro drain_hit [OF _ len]) (auto simp: nul_free_def)
  also have "\<dots> = Inr ([l1, l2] @ [b @ l2], ?s2)"
    by (rule drain_stop [where z = "[]"]) simp_all
  finally have drain: "input_drain input_size collect [l1, l2] ?m = Inr ([l1, l2, b @ l2], ?s2)"
    by (simp add: input_size_def)
  have 2: "input_poll ?k (Read_ok b) collect [l1, l2] ?s1 = Inr (True, [l1, l2, b @ l2], ?s2)"
    using drain poll s0 wr2 by (simp add: input_poll_def network_read_def buf_len_def)
  have neg: "i_used ?s2 < 0" by simp
  have 3: "input_poll ?k (Read_ok c) collect [l1, l2, b @ l2] ?s2 = Inl OutOfBounds"
    using neg poll s0 assms(10) by (simp add: input_poll_def)
  obtain s2 where s2: "input_poll ?k (Read_ok b) collect [l1, l2] ?s1 = Inr (True, [l1, l2, b @ l2], s2)"
    "i_used s2 < 0" "input_poll ?k (Read_ok c) collect [l1, l2, b @ l2] s2 = Inl OutOfBounds"
    using 2 neg 3 by blast
  show ?thesis
    using s2(2) by (intro exI [of _ s2]) (simp add: 1 s2(1,3))
qed

text \<open>A failing read makes the counter negative: -1 is added to it like a count, and the next
  read stores in front of the buffer.\<close>

theorem input_read_error:
  assumes "kpoll 0 POLLIN = Poll_ok POLLIN" and "c \<noteq> []"
  shows "\<exists>st. input_poll kpoll (Read_err e) h s (snd (input_init input_start)) = Inr (True, s, st) \<and>
    i_used st = - 1 \<and> input_poll kpoll (Read_ok c) h s st = Inl OutOfBounds"
proof -
  have "i_buf (snd (input_init input_start)) = replicate (Suc 4095) 0"
    by (simp add: input_init_def input_start_def buf_len_def input_size_def list_update_same_conv)
  then have "i_buf (snd (input_init input_start)) = [] @ 0 # replicate 4095 0"
    by (simp only: replicate_Suc append_Nil)
  then have drain: "input_drain input_size h s ((snd (input_init input_start))\<lparr>i_used := - 1\<rparr>) =
      Inr (s, (snd (input_init input_start))\<lparr>i_used := - 1\<rparr>)"
    unfolding input_size_fuel by (intro drain_stop [where z = "[]"]) simp_all
  moreover have "flagged POLLIN POLLIN" by (simp add: flagged_def poll_bits)
  moreover have "i_fd (snd (input_init input_start)) = 0"
    "i_events (snd (input_init input_start)) = POLLIN" "i_used (snd (input_init input_start)) = 0"
    by (simp_all add: input_init_def input_start_def STDIN_FILENO_def)
  ultimately show ?thesis
    using assms
    by (intro exI [of _ "(snd (input_init input_start))\<lparr>i_used := - 1\<rparr>"])
      (simp add: input_poll_def network_read_def buf_len_def input_size_def)
qed

theorem input_drain_exact_witness:
  "\<exists>st'. input_drain input_size collect [] (input_start\<lparr>i_buf := clean [97, 10, 98]\<rparr>) =
     Inr ([[97]], st') \<and> cstr (i_buf st') = [98]"
  using input_drain_exact [of "input_start\<lparr>i_buf := clean [97, 10, 98]\<rparr>" "\<lambda>ls l. ls @ [l]" "[]"]
    clean_terminated [of "[97, 10, 98]"]
  by (auto simp: terminated_def cstr_clean input_size_def)

theorem input_stale_line_witness:
  "\<exists>st. input_polls collect [replicate 2100 97 @ 10 # replicate 1900 98 @ [10], replicate 200 99] []
      (snd (input_init input_start)) =
    Inr (True, [replicate 2100 97, replicate 1900 98, replicate 200 99 @ replicate 1900 98], st) \<and>
    i_used st < 0"
proof -
  have free: "nul_free (replicate n 97)" "nul_free (replicate n 98)" "nul_free (replicate n 99)"
    and line: "10 \<notin> set (replicate n (97 :: byte))" "10 \<notin> set (replicate n (98 :: byte))"
      "10 \<notin> set (replicate n (99 :: byte))" for n
    by (auto simp: nul_free_def)
  have c: "[100 :: byte] \<noteq> []" by simp
  have len: "2048 \<le> length (replicate 2100 (97 :: byte))"
    "length (replicate 2100 (97 :: byte)) + length (replicate 1900 (98 :: byte)) + 2 \<le> buf_len"
    "length (replicate 200 (99 :: byte)) + length (replicate 1900 (98 :: byte)) =
       length (replicate 2100 (97 :: byte))"
    unfolding length_replicate by (simp_all add: buf_len_def input_size_def)
  show ?thesis
    using input_stale_line [OF free(1,2) line(1,2) len(1,2) free(3) line(3) len(3) c] by blast
qed

theorem input_read_error_witness:
  "\<exists>st. input_poll (\<lambda>_ _. Poll_ok POLLIN) (Read_err 5) collect [] (snd (input_init input_start)) =
     Inr (True, [], st) \<and> i_used st = - 1"
proof -
  obtain st where "input_poll (\<lambda>_ _. Poll_ok POLLIN) (Read_err 5) collect [] (snd (input_init input_start)) =
      Inr (True, [], st)" "i_used st = - 1"
    using input_read_error [of "\<lambda>_ _. Poll_ok POLLIN" "[97]" 5 collect "[]"] by auto
  then show ?thesis by blast
qed

end
