(* ===== verification/Clock.thy ===== *)
theory Clock
  imports Float "HOL-Library.Multiset"
begin

text \<open>
  \<^verbatim>\<open>platform_clock.c\<close>: a frame clock on the processor's time stamp counter. The readings of
  \<open>clock()\<close> and of the counter are arguments, in the order they are taken.
\<close>

section \<open>State\<close>

record tsc_clock_t =
  median_tsc_per_usec :: u64
  median_usec_per_tsc :: u64
  tsc_step :: u64
  jerk :: u64
  tsc_clock :: u64
  frame_to_frame_tsc :: u64

definition CLOCKS_PER_SEC :: int where
  "CLOCKS_PER_SEC = 1000000"

definition CLOCKS_PER_MS :: int where
  "CLOCKS_PER_MS = CLOCKS_PER_SEC div 1000"

definition MAX_SAMPLES :: nat where
  "MAX_SAMPLES = 10"

text \<open>A quotient of floats, \<open>1.f / CLOCKS_PER_SEC\<close>.\<close>

definition USEC_PER_CLOCK :: float where
  "USEC_PER_CLOCK = of_nat (fp_bits 23 8 False 1 (nat CLOCKS_PER_SEC))"

section \<open>Operations\<close>

text \<open>Read \<open>clock()\<close> until a millisecond has passed since \<open>p\<close>.\<close>

fun wait_ms :: "int \<Rightarrow> int list \<Rightarrow> (int \<times> int list) res" where
  "wait_ms p [] = Inl Diverge"
| "wait_ms p (c # cs) = (if c - p < CLOCKS_PER_MS then wait_ms p cs else Inr (c, cs))"

definition tsc_sample :: "int \<Rightarrow> int \<Rightarrow> u64 \<Rightarrow> u64 \<Rightarrow> u64 res" where
  "tsc_sample p c rp rc =
     rbind (f_mul (f_of_int (c - p)) USEC_PER_CLOCK) (\<lambda>usec.
     rbind (f_mul (to_float (rc - rp)) usec) f_to_u64)"

fun tsc_samples :: "nat \<Rightarrow> int \<Rightarrow> int list \<Rightarrow> u64 \<Rightarrow> u64 list \<Rightarrow> u64 list res" where
  "tsc_samples 0 c cs rc rs = Inr []"
| "tsc_samples (Suc n) c cs rc [] = Inl Diverge"
| "tsc_samples (Suc n) c cs rc (r # rs) =
     rbind (wait_ms c cs) (\<lambda>(c', cs').
     rbind (tsc_sample c c' rc r) (\<lambda>s.
     rbind (tsc_samples n c' cs' r rs) (\<lambda>ss. Inr (s # ss))))"

text \<open>The insertion sort: the inner loop swaps element \<open>j\<close> down to its place.\<close>

fun sift :: "nat \<Rightarrow> 'a::linorder list \<Rightarrow> 'a list" where
  "sift 0 xs = xs"
| "sift (Suc j) xs =
     (if xs ! j \<le> xs ! Suc j then xs
      else sift j (xs[j := xs ! Suc j, Suc j := xs ! j]))"

definition insertion_sort :: "'a::linorder list \<Rightarrow> 'a list" where
  "insertion_sort xs = foldl (\<lambda>ys i. sift i ys) xs [1..<length xs]"

text \<open>
  The calling thread's turn comes when the threads before it are done; \<open>lock\<close> is the pair of
  static counters. Readings: \<open>clock()\<close> and the counter, the first of each before the loop.
\<close>

definition tsc_per_usec ::
  "int list \<Rightarrow> u64 list \<Rightarrow> u64 \<times> u64 \<Rightarrow> (u64 \<times> u64 \<times> u64) res"
where
  "tsc_per_usec clocks tscs lock =
     (let (lock_id, running_thread) = lock; thread_id = lock_id; lock_id = lock_id + 1
      in if thread_id \<noteq> running_thread then Inl Diverge
         else
           case (clocks, tscs) of
             (c # cs, rc # rs) \<Rightarrow>
               rbind (tsc_samples MAX_SAMPLES c cs rc rs) (\<lambda>ss.
               Inr (insertion_sort ss ! (MAX_SAMPLES div 2), lock_id, running_thread + 1))
           | _ \<Rightarrow> Inl Diverge)"

definition tscdelta_to_usec :: "tsc_clock_t \<Rightarrow> u64 \<Rightarrow> u64" where
  "tscdelta_to_usec clock delta_tsc = drop_bit 33 (delta_tsc * median_usec_per_tsc clock)"

text \<open>\<open>clock_init\<close> with the measured rate, and the counter's reading after it.\<close>

definition clock_setup :: "u64 \<Rightarrow> u64 \<Rightarrow> u64 \<Rightarrow> tsc_clock_t res" where
  "clock_setup frame_goal_usec rate now =
     (if rate = 0 then Inl DivByZero
      else Inr \<lparr>median_tsc_per_usec = rate, median_usec_per_tsc = push_bit 33 1 div rate,
                tsc_step = frame_goal_usec * rate, jerk = 0, tsc_clock = now,
                frame_to_frame_tsc = now\<rparr>)"

definition clock_init ::
  "u64 \<Rightarrow> int list \<Rightarrow> u64 list \<Rightarrow> u64 \<Rightarrow> u64 \<times> u64 \<Rightarrow> (tsc_clock_t \<times> u64 \<times> u64) res"
where
  "clock_init frame_goal_usec clocks tscs now lock =
     rbind (tsc_per_usec clocks tscs lock) (\<lambda>(rate, lock').
     rbind (clock_setup frame_goal_usec rate now) (\<lambda>clock. Inr (clock, lock')))"

definition clock_delta_usec :: "tsc_clock_t \<Rightarrow> u64 \<Rightarrow> u64" where
  "clock_delta_usec clock now = tscdelta_to_usec clock (now - frame_to_frame_tsc clock)"

text \<open>The result, the sleep time when it is set, and the clock.\<close>

definition clock_sync :: "u64 \<Rightarrow> tsc_clock_t \<Rightarrow> bool \<times> u64 option \<times> tsc_clock_t" where
  "clock_sync tsc_now clock =
     (let tsc_previous = tsc_clock clock; tsc_next = tsc_previous + tsc_step clock in
      if tsc_next - tsc_now < tsc_step clock then
        (False, Some (tscdelta_to_usec clock (tsc_next - tsc_now)), clock)
      else
        let c1 = (if tsc_now - tsc_next \<le> tsc_step clock then clock\<lparr>tsc_clock := tsc_next\<rparr>
                  else if tsc_now - tsc_next > tsc_step clock
                  then clock\<lparr>tsc_clock := tsc_now, jerk := jerk clock + 1\<rparr>
                  else clock)
        in (True, None, c1\<lparr>frame_to_frame_tsc := tsc_now\<rparr>))"

section \<open>The sort\<close>

lemma length_sift [simp]: "length (sift j xs) = length xs"
  by (induction j xs rule: sift.induct) auto

lemma mset_sift: "j < length xs \<Longrightarrow> mset (sift j xs) = mset xs"
proof (induction j xs rule: sift.induct)
  case (2 j xs)
  have "mset (xs[j := xs ! Suc j, Suc j := xs ! j]) = mset xs"
    using 2(2) by (intro mset_swap) simp_all
  then show ?case using 2 by auto
qed simp

lemma sift_above: "j < i \<Longrightarrow> sift j xs ! i = xs ! i"
  by (induction j xs rule: sift.induct) auto

text \<open>The first \<open>Suc i\<close> elements are in order, but for element \<open>j\<close> against the ones before it.\<close>

definition sorted_but :: "nat \<Rightarrow> nat \<Rightarrow> 'a::linorder list \<Rightarrow> bool" where
  "sorted_but j i xs \<longleftrightarrow> (\<forall>a b. a < b \<longrightarrow> b \<le> i \<longrightarrow> b \<noteq> j \<longrightarrow> xs ! a \<le> xs ! b)"

lemma sift_sorted:
  "sorted_but j i xs \<Longrightarrow> j \<le> i \<Longrightarrow> i < length xs \<Longrightarrow>
   \<forall>a b. a < b \<longrightarrow> b \<le> i \<longrightarrow> sift j xs ! a \<le> sift j xs ! b"
proof (induction j xs rule: sift.induct)
  case (1 xs)
  then show ?case by (auto simp: sorted_but_def)
next
  case (2 j xs)
  show ?case
  proof (cases "xs ! j \<le> xs ! Suc j")
    case True
    have "xs ! a \<le> xs ! Suc j" if "a < Suc j" for a
    proof (cases "a = j")
      case False
      then have "a < j" using that by simp
      then have "xs ! a \<le> xs ! j" using 2(2,3) by (auto simp: sorted_but_def)
      then show ?thesis using True by simp
    qed (use True in simp)
    then show ?thesis using 2(2) True by (auto simp: sorted_but_def)
  next
    case False
    let ?ys = "xs[j := xs ! Suc j, Suc j := xs ! j]"
    have sb: "xs ! a \<le> xs ! b" if "a < b" "b \<le> i" "b \<noteq> Suc j" for a b
      using 2(2) that by (auto simp: sorted_but_def)
    have "?ys ! a \<le> ?ys ! b" if "a < b" "b \<le> i" "b \<noteq> j" for a b
      using that 2(3,4) False sb [of a j] sb [of "Suc j" b] sb [of j b] sb [of a b]
      by (auto simp: nth_list_update)
    then have "sorted_but j i ?ys" by (simp add: sorted_but_def)
    then show ?thesis using 2 False by simp
  qed
qed

lemma insertion_sort_correct:
  "mset (insertion_sort xs) = mset xs" "sorted (insertion_sort xs)"
proof -
  have inv: "n \<le> length xs \<Longrightarrow> mset (foldl (\<lambda>ys i. sift i ys) xs [1..<n]) = mset xs \<and>
      length (foldl (\<lambda>ys i. sift i ys) xs [1..<n]) = length xs \<and>
      (\<forall>a b. a < b \<longrightarrow> b < n \<longrightarrow> foldl (\<lambda>ys i. sift i ys) xs [1..<n] ! a \<le>
         foldl (\<lambda>ys i. sift i ys) xs [1..<n] ! b)" for n
  proof (induction n)
    case (Suc n)
    show ?case
    proof (cases "n = 0")
      case False
      define ys where "ys = foldl (\<lambda>ys i. sift i ys) xs [1..<n]"
      have ys: "mset ys = mset xs" "length ys = length xs"
        "\<And>a b. a < b \<Longrightarrow> b < n \<Longrightarrow> ys ! a \<le> ys ! b"
        using Suc by (simp_all add: ys_def)
      have "sorted_but n n ys" using ys(3) by (auto simp: sorted_but_def)
      moreover have "n < length ys" using Suc.prems ys(2) by simp
      ultimately have "\<forall>a b. a < b \<longrightarrow> b \<le> n \<longrightarrow> sift n ys ! a \<le> sift n ys ! b"
        by (intro sift_sorted) simp_all
      moreover have "mset (sift n ys) = mset xs"
        using mset_sift [of n ys] Suc.prems ys by simp
      moreover have "foldl (\<lambda>ys i. sift i ys) xs [1..<Suc n] = sift n ys"
        using False by (simp add: ys_def)
      ultimately show ?thesis using ys(2) by (simp only: length_sift) (auto simp: less_Suc_eq_le)
    qed (use Suc in simp)
  qed simp
  then show "mset (insertion_sort xs) = mset xs" "sorted (insertion_sort xs)"
    using inv [of "length xs"] by (auto simp: insertion_sort_def sorted_iff_nth_mono_less)
qed

section \<open>Sampling\<close>

lemma tsc_sample_values:
  "tsc_sample 0 1000 0 2000000 = Inr 2000 \<and> tsc_sample 0 2000 0 4000000 = Inr 8000"
proof -
  have "USEC_PER_CLOCK = 0x358637BD"
    by (simp add: USEC_PER_CLOCK_def CLOCKS_PER_SEC_def fp_eval)
  moreover have "f_of_int 1000 = 0x447A0000" "f_of_int 2000 = 0x44FA0000"
    "f_of_int 2000000 = 0x49F42400" "f_of_int 4000000 = 0x4A742400"
    by (simp_all add: f_of_int_def fp_eval)
  moreover have "fval 0x447A0000 = Fin False 16384000 (- 14)" "fval 0x44FA0000 = Fin False 16384000 (- 13)"
    "fval 0x358637BD = Fin False 8796093 (- 43)" "fval 0x3A83126F = Fin False 8589935 (- 33)"
    "fval 0x3B03126F = Fin False 8589935 (- 32)" "fval 0x49F42400 = Fin False 16000000 (- 3)"
    "fval 0x4A742400 = Fin False 16000000 (- 2)" "fval 0x44FA0001 = Fin False 16384001 (- 13)"
    "fval 0x45FA0001 = Fin False 16384001 (- 11)"
    by (simp_all add: fp_eval)
  note vals = this
  have "f_mul 0x447A0000 0x358637BD = Inr 0x3A83126F"
    by (simp add: f_mul_def vals) (simp add: fp_eval)
  moreover have "f_mul 0x44FA0000 0x358637BD = Inr 0x3B03126F"
    by (simp add: f_mul_def vals) (simp add: fp_eval)
  moreover have "f_mul 0x49F42400 0x3A83126F = Inr 0x44FA0001"
    by (simp add: f_mul_def vals) (simp add: fp_eval)
  moreover have "f_mul 0x4A742400 0x3B03126F = Inr 0x45FA0001"
    by (simp add: f_mul_def vals) (simp add: fp_eval)
  moreover have "f_to_u64 0x44FA0001 = Inr 2000" "f_to_u64 0x45FA0001 = Inr 8000"
    by (simp_all add: f_to_u64_def vals truncate_mag_def)
  ultimately show ?thesis
    by (simp add: tsc_sample_def to_float_def)
qed

lemma tsc_sample_at:
  "c - p = 1000 \<Longrightarrow> rc - rp = 2000000 \<Longrightarrow> tsc_sample p c rp rc = Inr 2000"
  "c - p = 2000 \<Longrightarrow> rc - rp = 4000000 \<Longrightarrow> tsc_sample p c rp rc = Inr 8000"
  using tsc_sample_values by (simp_all add: tsc_sample_def)

lemma ten: "MAX_SAMPLES = Suc (Suc (Suc (Suc (Suc (Suc (Suc (Suc (Suc (Suc 0)))))))))"
  by (simp add: MAX_SAMPLES_def)

section \<open>Properties\<close>

text \<open>C29: The rate is the median of the samples: the insertion sort yields the samples in ascending
  order, none lost or doubled, and element 5 of the 10 is returned.\<close>

theorem tsc_per_usec_median:
  assumes "tsc_samples MAX_SAMPLES c cs rc rs = Inr ss" and "lock_id = running"
  shows "tsc_per_usec (c # cs) (rc # rs) (lock_id, running) = Inr (sort ss ! 5, lock_id + 1, running + 1)"
proof -
  have "insertion_sort ss = sort ss"
    using insertion_sort_correct [of ss] by (metis properties_for_sort)
  then show ?thesis
    using assms by (simp add: tsc_per_usec_def MAX_SAMPLES_def)
qed

theorem tsc_per_usec_median_witness:
  "tsc_per_usec [0, 1000, 2000, 3000, 4000, 5000, 6000, 8000, 9000, 10000, 11000]
     [0, 2000000, 4000000, 6000000, 8000000, 10000000, 12000000, 16000000, 18000000, 20000000, 22000000]
     (3, 3) = Inr (2000, 4, 4)"
proof -
  have "tsc_samples MAX_SAMPLES 0 [1000, 2000, 3000, 4000, 5000, 6000, 8000, 9000, 10000, 11000]
      0 [2000000, 4000000, 6000000, 8000000, 10000000, 12000000, 16000000, 18000000, 20000000, 22000000] =
    Inr [2000, 2000, 2000, 2000, 2000, 2000, 8000, 2000, 2000, 2000]"
    by (simp add: ten CLOCKS_PER_MS_def CLOCKS_PER_SEC_def tsc_sample_at)
  from tsc_per_usec_median [OF this, of 3 3] show ?thesis by simp
qed
text \<open>C27: How the frame clock advances, for steps below \<open>2 ^ 63\<close>. With \<open>d\<close> ticks since the clock's
  own time: it waits for \<open>1 \<le> d \<le> step\<close>; for \<open>step < d \<le> 2 * step\<close> it advances by exactly one
  step, however late the frame is; otherwise, when more than two steps have passed or the counter
  stands still or runs backwards, it jumps to the present and counts a jerk.\<close>

theorem clock_sync_cases:
  assumes "0 < unat (tsc_step clock)" and "unat (tsc_step clock) < 2 ^ 63"
    and "d = unat (now - tsc_clock clock)" and "step = unat (tsc_step clock)"
  shows "(1 \<le> d \<and> d \<le> step \<longrightarrow>
      clock_sync now clock =
        (False, Some (tscdelta_to_usec clock (of_nat (step - d))), clock)) \<and>
    (step < d \<and> d \<le> 2 * step \<longrightarrow>
      clock_sync now clock = (True, None,
        clock\<lparr>tsc_clock := tsc_clock clock + tsc_step clock, frame_to_frame_tsc := now\<rparr>)) \<and>
    (d = 0 \<or> 2 * step < d \<longrightarrow>
      clock_sync now clock = (True, None,
        clock\<lparr>tsc_clock := now, jerk := jerk clock + 1, frame_to_frame_tsc := now\<rparr>))"
proof -
  define D S where "D = now - tsc_clock clock" and "S = tsc_step clock"
  have eqs: "tsc_clock clock + S - now = S - D" "now - (tsc_clock clock + S) = D - S"
    by (simp_all add: D_def)
  have d: "unat D = d" "unat S = step" "0 < step" "step < 2 ^ 63" "d < 2 ^ 64"
    using assms u64_lt [of D] by (simp_all add: D_def S_def)
  have SD: "unat (S - D) = (if d \<le> step then step - d else step + 2 ^ 64 - d)"
    and DS: "unat (D - S) = (if step \<le> d then d - step else d + 2 ^ 64 - step)"
    using d(1,2) by (simp_all add: unat_sub_if')
  have wait: "S - D < S \<longleftrightarrow> 1 \<le> d \<and> d \<le> step"
    using d SD by (auto simp: word_less_nat_alt)
  have near: "D - S \<le> S \<longleftrightarrow> step \<le> d \<and> d \<le> 2 * step"
    using d DS by (auto simp: word_le_nat_alt)
  have "of_nat (step - d) = S - D" if "d \<le> step"
  proof -
    have "S - D = of_nat (unat (S - D))" by simp
    then show ?thesis using SD that by (simp only: if_True)
  qed
  then show ?thesis
    using wait near d(3)
    by (auto simp: clock_sync_def Let_def eqs simp flip: S_def)
qed

definition example_clock :: "u64 \<Rightarrow> tsc_clock_t" where
  "example_clock now =
     \<lparr>median_tsc_per_usec = 1000, median_usec_per_tsc = 8589934, tsc_step = 100000,
      jerk = 0, tsc_clock = now, frame_to_frame_tsc = now\<rparr>"

lemma example_clock_setup: "clock_setup 100 1000 now = Inr (example_clock now)"
  by (simp add: clock_setup_def example_clock_def)

theorem clock_sync_cases_witness:
  "clock_sync 150000 (example_clock 0) =
    (True, None, (example_clock 0)\<lparr>tsc_clock := 100000, frame_to_frame_tsc := 150000\<rparr>)"
proof -
  have h: "0 < unat (tsc_step (example_clock 0))" "unat (tsc_step (example_clock 0)) < 2 ^ 63"
    "150000 = unat ((150000 :: u64) - tsc_clock (example_clock 0))"
    "100000 = unat (tsc_step (example_clock 0))"
    by (simp_all add: example_clock_def)
  have "clock_sync 150000 (example_clock 0) = (True, None,
      (example_clock 0)\<lparr>tsc_clock := tsc_clock (example_clock 0) + tsc_step (example_clock 0),
        frame_to_frame_tsc := 150000\<rparr>)"
    using clock_sync_cases [OF h] by simp
  then show ?thesis by (simp add: example_clock_def)
qed

lemma setup_consts:
  assumes "clock_setup goal rate now = Inr clock"
  shows "0 < unat rate" "unat (median_usec_per_tsc clock) = 2 ^ 33 div unat rate"
    "tsc_step clock = goal * rate"
  using assms by (auto simp: clock_setup_def unat_div unat_gt_0 split: if_splits)

lemma tscdelta_nat:
  assumes "unat delta * unat (median_usec_per_tsc clock) < 2 ^ 64"
  shows "unat (tscdelta_to_usec clock delta) =
    unat delta * unat (median_usec_per_tsc clock) div 2 ^ 33"
proof -
  have "unat (delta * median_usec_per_tsc clock) = unat delta * unat (median_usec_per_tsc clock)"
    using iffD1 [OF unat_mult_lem, of delta "median_usec_per_tsc clock"] assms by simp
  then show ?thesis unfolding tscdelta_to_usec_def unat_drop_bit_eq
    by (simp only: drop_bit_eq_div)
qed

text \<open>C28: Times never come out too long, and hardly too short: with the constants of a clock set up
  at \<open>rate\<close> ticks per microsecond, a number of ticks that does not overflow the product converts
  to at most its exact value, and to less than that by at most one microsecond, and one more for
  every \<open>2 ^ 33\<close> ticks.\<close>

theorem tscdelta_bounds:
  assumes "clock_setup goal rate now = Inr clock"
    and "unat delta * (2 ^ 33 div unat rate) < 2 ^ 64"
  shows "unat (tscdelta_to_usec clock delta) \<le> unat delta div unat rate \<and>
    unat delta div unat rate \<le> unat (tscdelta_to_usec clock delta) + unat delta div 2 ^ 33 + 1"
proof -
  define N :: nat where "N = 2 ^ 33"
  define x t m where "x = unat delta" and "t = unat rate" and "m = N div t"
  have t: "0 < t" using setup_consts(1) [OF assms(1)] by (simp add: t_def)
  have q: "unat (tscdelta_to_usec clock delta) = x * m div N"
    using tscdelta_nat [of delta clock] setup_consts(2) [OF assms(1)] assms(2)
    by (simp add: x_def m_def t_def N_def)
  have N: "0 < N" by (simp add: N_def)
  have mt: "m * t \<le> N" "N < m * t + t"
    using div_times_less_eq_dividend [of N t] dividend_less_div_times [OF t, of N]
    by (simp_all add: m_def)
  have "(x * m div N) * t * N \<le> x * m * t"
  proof -
    have "(x * m div N * N) * t \<le> (x * m) * t"
      by (intro mult_right_mono div_times_less_eq_dividend) simp
    then show ?thesis by (simp only: mult.assoc mult.commute [of t N])
  qed
  also have "\<dots> \<le> x * N" using mt(1) by (simp add: mult.assoc)
  finally have "(x * m div N) * t \<le> x" using N by simp
  then have upper: "x * m div N \<le> x div t" using t by (simp add: less_eq_div_iff_mult_less_eq)
  let ?Q = "x div t"
  have Q: "?Q * t \<le> x" by (rule div_times_less_eq_dividend)
  have "?Q * N \<le> ?Q * (m * t + t)" using mt(2) by (intro mult_left_mono) simp_all
  also have "\<dots> = (?Q * t) * m + ?Q * t" by (simp add: algebra_simps)
  also have "\<dots> \<le> x * m + x" using Q by (intro add_mono mult_right_mono) simp_all
  also have "\<dots> < (x * m div N * N + N) + (x div N * N + N)"
    using dividend_less_div_times [OF N, of "x * m"] dividend_less_div_times [OF N, of x]
    by (intro add_strict_mono) simp_all
  also have "\<dots> = (x * m div N + x div N + 2) * N" by (simp add: algebra_simps)
  finally have "?Q < x * m div N + x div N + 2" unfolding mult_less_cancel2 by blast
  then show ?thesis using upper q by (simp add: x_def t_def N_def)
qed

theorem tscdelta_bounds_witness:
  "unat (tscdelta_to_usec (example_clock 0) 123456) \<le> 123 \<and>
   122 \<le> unat (tscdelta_to_usec (example_clock 0) 123456)"
  using tscdelta_bounds [OF example_clock_setup, of 123456 0] by simp

text \<open>A waiting frame never asks for a sleep of its whole length or more: the time that
  \<open>clock_sync\<close> stores is shorter than the frame's goal, hence below a second whenever the goal
  is at most that.\<close>

theorem sleep_below_goal:
  assumes "clock_setup goal rate now = Inr clock0" and "unat goal * unat rate < 2 ^ 64"
    and "unat goal \<le> 10 ^ 6"
    and "tsc_step clock = tsc_step clock0" and "median_usec_per_tsc clock = median_usec_per_tsc clock0"
    and "clock_sync tsc_now clock = (False, Some usec, clock')"
  shows "unat usec < unat goal"
proof -
  define delta where "delta = tsc_clock clock + tsc_step clock - tsc_now"
  have run: "delta < tsc_step clock" "usec = tscdelta_to_usec clock delta"
    using assms(6) by (auto simp: clock_sync_def Let_def delta_def split: if_splits)
  define N :: nat where "N = 2 ^ 33"
  define x t g m where "x = unat delta" and "t = unat rate" and "g = unat goal" and "m = N div t"
  have step: "unat (tsc_step clock) = g * t"
    using setup_consts(3) [OF assms(1)] assms(2,4) iffD1 [OF unat_mult_lem, of goal rate]
    by (simp add: g_def t_def)
  have x: "x < g * t" using run(1) step by (simp add: word_less_nat_alt x_def)
  have med: "unat (median_usec_per_tsc clock) = m"
    using setup_consts(2) [OF assms(1)] assms(5) by (simp add: m_def N_def t_def)
  have "m * t \<le> N" by (simp add: m_def div_times_less_eq_dividend)
  then have "g * t * m \<le> g * N" by (simp add: mult.assoc mult.commute [of t])
  moreover have "x * m < g * t * m" if "0 < m" using x that by simp
  moreover have "0 < g * N" using x by (cases g) (auto simp: N_def)
  ultimately have lt: "x * m < g * N"
    by (metis less_le_trans mult_0_right neq0_conv)
  also have "g * N < 2 ^ 64"
    using assms(3) by (simp add: N_def g_def)
  finally have "unat usec = x * m div N"
    using tscdelta_nat [of delta clock] run(2) med by (simp add: x_def N_def)
  then show ?thesis
    using lt by (simp add: g_def less_mult_imp_div_less)
qed

theorem sleep_below_goal_witness: "unat (tscdelta_to_usec (example_clock 0) 60000) < 100"
proof -
  have "clock_sync 40000 (example_clock 0) =
      (False, Some (tscdelta_to_usec (example_clock 0) 60000), example_clock 0)"
    by (simp add: clock_sync_def Let_def example_clock_def)
  then show ?thesis
    using sleep_below_goal [OF example_clock_setup, where clock = "example_clock 0"] by simp
qed

text \<open>A sample is scaled the wrong way: its ticks are multiplied by the milliseconds measured
  where they should be divided by them. When a sample takes 2 ms instead of 1, its ticks have
  already doubled, and the rate that comes out is four times the true one: 2000 ticks in each of
  2000 microseconds give 8000 ticks per microsecond.\<close>

theorem tsc_sample_quadratic:
  "tsc_sample 0 1000 0 2000000 = Inr 2000 \<and> tsc_sample 0 2000 0 4000000 = Inr 8000"
  by (simp add: tsc_sample_at)

end
