(* ===== verification/Loop.thy ===== *)
theory Loop
  imports Clock CMacro
begin

text \<open>
  \<^verbatim>\<open>loop.c\<close>: the frame counters of the main loop and its pace.
\<close>

section \<open>State\<close>

record loop_t =
  l_clock :: tsc_clock_t
  sleep_usec :: u64
  sleep_enable :: bool
  clock_start :: int
  tsc_start :: u64
  frame :: u32
  pause_frame :: u32
  stall_frame :: u32
  sleep_count :: u32
  running :: bool
  run_count :: u32
  input_queue :: u32
  input_queue_max :: u32

definition loop_start :: loop_t where
  "loop_start =
     \<lparr>l_clock = \<lparr>median_tsc_per_usec = 0, median_usec_per_tsc = 0, tsc_step = 0, jerk = 0,
                 tsc_clock = 0, frame_to_frame_tsc = 0\<rparr>,
      sleep_usec = 0, sleep_enable = False, clock_start = 0, tsc_start = 0, frame = 0,
      pause_frame = 0, stall_frame = 0, sleep_count = 0, running = False, run_count = 0,
      input_queue = 0, input_queue_max = 0\<rparr>"

section \<open>Operations\<close>

text \<open>
  One round of the waiting loop of \<open>loop_one\<close>: the clock is asked at the counter's reading \<open>now\<close>;
  if the frame is not over, the sleep that follows is interrupted \<open>interrupts\<close> times.
\<close>

definition loop_poll :: "u64 \<Rightarrow> nat \<Rightarrow> loop_t \<Rightarrow> bool \<times> loop_t" where
  "loop_poll now interrupts st =
     (let (synced, usec, clock) = clock_sync now (l_clock st);
          st1 = st\<lparr>l_clock := clock,
                   sleep_usec := (case usec of None \<Rightarrow> sleep_usec st | Some u \<Rightarrow> u)\<rparr>
      in (synced,
          if \<not> synced \<and> sleep_enable st
          then st1\<lparr>sleep_count := sleep_count st + of_nat (Suc interrupts)\<rparr> else st1))"

fun loop_wait :: "(u64 \<times> nat) list \<Rightarrow> loop_t \<Rightarrow> loop_t res" where
  "loop_wait [] st = Inl Diverge"
| "loop_wait ((now, interrupts) # rs) st =
     (let (synced, st1) = loop_poll now interrupts st
      in if synced then Inr st1 else loop_wait rs st1)"

text \<open>\<open>loop_one\<close> on the counter that \<open>bump\<close> increments.\<close>

definition loop_one :: "(loop_t \<Rightarrow> loop_t) \<Rightarrow> (u64 \<times> nat) list \<Rightarrow> loop_t \<Rightarrow> loop_t res" where
  "loop_one bump readings st = loop_wait readings (bump st)"

text \<open>
  The goal is computed as a \<open>long double\<close> and truncated; a rate of 0 gives an infinite one, whose
  conversion is undefined. The arguments after the rate are those of \<open>clock_init\<close>, and a last
  reading of \<open>clock()\<close>.
\<close>

definition loop_init ::
  "u8 \<Rightarrow> int list \<Rightarrow> u64 list \<Rightarrow> u64 \<Rightarrow> int \<Rightarrow> u64 \<times> u64 \<Rightarrow> loop_t \<Rightarrow>
   (loop_t \<times> u64 \<times> u64) res"
where
  "loop_init framerate clocks tscs now clk lock st =
     (if framerate = 0 then Inl BadConversion
      else
        let usec_goal = of_nat (1000000 div unat framerate) in
        rbind (clock_init usec_goal clocks tscs now lock) (\<lambda>(clock, lock').
        Inr (st\<lparr>l_clock := clock, clock_start := clk, tsc_start := tsc_clock clock,
                frame := 0, pause_frame := 0, stall_frame := 0, running := True,
                input_queue := ucast framerate, input_queue_max := ucast framerate\<rparr>, lock')))"

definition loop_enable_yield :: "loop_t \<Rightarrow> loop_t" where
  "loop_enable_yield st = st\<lparr>sleep_enable := True\<rparr>"

definition loop_run :: "loop_t \<Rightarrow> bool" where
  "loop_run st = running st"

definition loop_frame :: "loop_t \<Rightarrow> u32" where
  "loop_frame st = frame st"

definition loop_stall :: "(u64 \<times> nat) list \<Rightarrow> loop_t \<Rightarrow> loop_t res" where
  "loop_stall = loop_one (\<lambda>st. st\<lparr>stall_frame := stall_frame st + 1\<rparr>)"

definition loop_pause :: "(u64 \<times> nat) list \<Rightarrow> loop_t \<Rightarrow> loop_t res" where
  "loop_pause = loop_one (\<lambda>st. st\<lparr>pause_frame := pause_frame st + 1\<rparr>)"

definition loop_sync :: "(u64 \<times> nat) list \<Rightarrow> loop_t \<Rightarrow> loop_t res" where
  "loop_sync = loop_one (\<lambda>st. st\<lparr>frame := frame st + 1\<rparr>)"

definition loop_input_frame :: "loop_t \<Rightarrow> u32" where
  "loop_input_frame st = frame st + pause_frame st"

definition loop_input_queue :: "loop_t \<Rightarrow> u32" where
  "loop_input_queue st = input_queue st"

definition loop_input_queue_max :: "loop_t \<Rightarrow> u32" where
  "loop_input_queue_max st = input_queue_max st"

definition loop_write_frame :: "loop_t \<Rightarrow> u32" where
  "loop_write_frame st = frame st + pause_frame st + input_queue st"

definition loop_halt :: "loop_t \<Rightarrow> loop_t" where
  "loop_halt st = st\<lparr>running := False\<rparr>"

definition loop_shutdown :: "loop_t \<Rightarrow> loop_t" where
  "loop_shutdown st = st\<lparr>run_count := run_count st + 1\<rparr>"

text \<open>The numbers \<open>loop_print_status\<close> prints: the estimated end, the drift in ticks and in
  milliseconds, and the time elapsed; \<open>clk\<close> is the reading of \<open>clock()\<close>.\<close>

definition loop_print_status :: "int \<Rightarrow> loop_t \<Rightarrow> (u64 \<times> u64 \<times> u64 \<times> u64) res" where
  "loop_print_status clk st =
     (let clockElapsed = clk - clock_start st;
          elapsedMs = word_of_int (sgn clockElapsed * (\<bar>clockElapsed\<bar> div CLOCKS_PER_MS)) :: u64;
          tsc = tsc_clock (l_clock st);
          tscPerMs = median_tsc_per_usec (l_clock st) * 1000;
          tscEndEstimate = tsc_start st + tscPerMs * elapsedMs;
          tscDrift = c_min (tscEndEstimate - tsc) (tsc - tscEndEstimate)
      in if tscPerMs = 0 then Inl DivByZero
         else Inr (tscEndEstimate, tscDrift, tscDrift div tscPerMs, elapsedMs))"

section \<open>Lemmas\<close>

text \<open>All that waiting changes.\<close>

definition waited :: "loop_t \<Rightarrow> loop_t \<Rightarrow> bool" where
  "waited st st' \<longleftrightarrow>
     frame st' = frame st \<and> pause_frame st' = pause_frame st \<and> stall_frame st' = stall_frame st \<and>
     running st' = running st \<and> input_queue st' = input_queue st \<and>
     input_queue_max st' = input_queue_max st \<and> run_count st' = run_count st \<and>
     sleep_enable st' = sleep_enable st \<and> tsc_start st' = tsc_start st \<and>
     clock_start st' = clock_start st"

text \<open>While it waits, the clock stands; when the frame is over, it moves by a step or counts a jerk.\<close>

lemma clock_sync_waits: "clock_sync now c = (False, usec, c') \<Longrightarrow> c' = c"
  by (auto simp: clock_sync_def Let_def split: if_splits)

definition due :: "u64 \<Rightarrow> tsc_clock_t \<Rightarrow> bool" where
  "due now c \<longleftrightarrow> fst (clock_sync now c)"

definition synced_clock :: "u64 \<Rightarrow> tsc_clock_t \<Rightarrow> tsc_clock_t" where
  "synced_clock now c = snd (snd (clock_sync now c))"

lemma clock_sync_step:
  assumes "due now c"
  shows "tsc_step (synced_clock now c) = tsc_step c"
    and "(jerk (synced_clock now c) = jerk c \<and>
         tsc_clock (synced_clock now c) = tsc_clock c + tsc_step c) \<or>
       jerk (synced_clock now c) = jerk c + 1"
  using assms by (auto simp: due_def synced_clock_def clock_sync_def Let_def split: if_splits)

lemma loop_poll_cases:
  obtains st' where "loop_poll now i st = (True, st')" and "due now (l_clock st)"
      and "l_clock st' = synced_clock now (l_clock st)" and "waited st st'"
  | st' where "loop_poll now i st = (False, st')" and "\<not> due now (l_clock st)"
      and "l_clock st' = l_clock st" and "waited st st'"
proof -
  obtain synced usec c where c: "clock_sync now (l_clock st) = (synced, usec, c)"
    by (cases "clock_sync now (l_clock st)")
  have w: "waited st (snd (loop_poll now i st))" and "fst (loop_poll now i st) = synced"
    and "l_clock (snd (loop_poll now i st)) = c"
    by (auto simp: loop_poll_def c waited_def Let_def)
  moreover have "due now (l_clock st) = synced" "synced_clock now (l_clock st) = c"
    by (simp_all add: due_def synced_clock_def c)
  moreover have "\<not> synced \<Longrightarrow> c = l_clock st"
    using clock_sync_waits [of now "l_clock st" usec c] c by simp
  ultimately show ?thesis
    using that by (cases synced; cases "loop_poll now i st") auto
qed

lemma waited_trans: "waited a b \<Longrightarrow> waited b c \<Longrightarrow> waited a c"
  by (simp add: waited_def)

lemma loop_wait_sync:
  "loop_wait rs st = Inr st' \<Longrightarrow>
   waited st st' \<and> (\<exists>now. due now (l_clock st) \<and> l_clock st' = synced_clock now (l_clock st))"
proof (induction rs st rule: loop_wait.induct)
  case (2 now i rs st)
  show ?case
  proof (cases rule: loop_poll_cases [of now i st])
    case (1 st1)
    then show ?thesis using 2(2) by auto
  next
    case (2 st1)
    then show ?thesis
      using "2.IH" [OF refl] "2.prems" waited_trans [of st st1 st'] by auto
  qed
qed simp

lemma loop_wait_due:
  "\<exists>(now, i) \<in> set rs. due now (l_clock st) \<Longrightarrow> \<exists>st'. loop_wait rs st = Inr st'"
proof (induction rs arbitrary: st)
  case (Cons r rs)
  obtain now i where r: "r = (now, i)" by (cases r)
  show ?case
  proof (cases rule: loop_poll_cases [of now i st])
    case (1 st1)
    then show ?thesis by (simp add: r)
  next
    case (2 st1)
    then show ?thesis using Cons.IH [of st1] Cons.prems by (simp add: r)
  qed
qed simp

section \<open>Properties\<close>

text \<open>C26: Each of the three paces ends as soon as the counter shows that a frame is over, and changes
  exactly one frame counter, by one: \<open>loop_sync\<close> the frame, \<open>loop_pause\<close> the paused and
  \<open>loop_stall\<close> the stalled frames. The write frame advances with the first two only.\<close>

theorem loop_pace:
  assumes "(now, k) \<in> set rs" and "due now (l_clock st)"
  shows "(\<exists>st'. loop_sync rs st = Inr st' \<and> frame st' = frame st + 1 \<and>
      pause_frame st' = pause_frame st \<and> stall_frame st' = stall_frame st \<and>
      running st' = running st \<and> loop_write_frame st' = loop_write_frame st + 1) \<and>
    (\<exists>st'. loop_pause rs st = Inr st' \<and> frame st' = frame st \<and>
      pause_frame st' = pause_frame st + 1 \<and> stall_frame st' = stall_frame st \<and>
      running st' = running st \<and> loop_write_frame st' = loop_write_frame st + 1) \<and>
    (\<exists>st'. loop_stall rs st = Inr st' \<and> frame st' = frame st \<and>
      pause_frame st' = pause_frame st \<and> stall_frame st' = stall_frame st + 1 \<and>
      running st' = running st \<and> loop_write_frame st' = loop_write_frame st)"
proof -
  have run: "\<exists>st'. loop_wait rs s = Inr st' \<and> waited s st'" if "l_clock s = l_clock st" for s
    using loop_wait_due [of rs s] loop_wait_sync [of rs s] assms that by fastforce
  show ?thesis
    using run [of "st\<lparr>frame := frame st + 1\<rparr>"] run [of "st\<lparr>pause_frame := pause_frame st + 1\<rparr>"]
      run [of "st\<lparr>stall_frame := stall_frame st + 1\<rparr>"]
    by (auto simp: loop_sync_def loop_pause_def loop_stall_def loop_one_def waited_def
        loop_write_frame_def)
qed

theorem loop_pace_witness:
  "\<exists>st'. loop_sync [(50000, 0), (150000, 0)] (loop_start\<lparr>l_clock := example_clock 0\<rparr>) = Inr st' \<and>
    frame st' = 1"
proof -
  have "due 150000 (l_clock (loop_start\<lparr>l_clock := example_clock 0\<rparr>))"
    by (simp add: due_def clock_sync_def Let_def example_clock_def)
  from loop_pace [OF _ this, of 0 "[(50000, 0), (150000, 0)]"] show ?thesis
    by (auto simp: loop_start_def)
qed

text \<open>Frames one after the other, each with its readings.\<close>

fun loop_syncs :: "(u64 \<times> nat) list list \<Rightarrow> loop_t \<Rightarrow> loop_t res" where
  "loop_syncs [] st = Inr st"
| "loop_syncs (rs # rss) st = rbind (loop_sync rs st) (loop_syncs rss)"

text \<open>C25: The pace does not drift: over any number of frames in which no jerk was counted, the clock
  has advanced by exactly one step per frame, however late or early each frame was noticed.\<close>

theorem loop_no_drift:
  assumes "loop_syncs rss st = Inr st'" and "jerk (l_clock st') = jerk (l_clock st)"
    and "length rss < 2 ^ 64"
  shows "tsc_clock (l_clock st') =
      tsc_clock (l_clock st) + of_nat (length rss) * tsc_step (l_clock st) \<and>
    frame st' = frame st + of_nat (length rss)"
proof -
  have "\<exists>k. k \<le> length rss \<and> jerk (l_clock st') = jerk (l_clock st) + of_nat k \<and>
      (k = 0 \<longrightarrow> tsc_clock (l_clock st') =
        tsc_clock (l_clock st) + of_nat (length rss) * tsc_step (l_clock st)) \<and>
      frame st' = frame st + of_nat (length rss)"
    using assms(1)
  proof (induction rss arbitrary: st)
    case Nil
    then show ?case by simp
  next
    case (Cons rs rss)
    obtain st1 where 1: "loop_sync rs st = Inr st1" "loop_syncs rss st1 = Inr st'"
      using Cons.prems by (auto simp: rbind_eq_Inr)
    then have w: "waited (st\<lparr>frame := frame st + 1\<rparr>) st1 \<and> (\<exists>now. due now (l_clock st) \<and>
        l_clock st1 = synced_clock now (l_clock st))"
      using loop_wait_sync [of rs "st\<lparr>frame := frame st + 1\<rparr>"]
      by (simp add: loop_sync_def loop_one_def)
    then obtain now where now: "due now (l_clock st)" "l_clock st1 = synced_clock now (l_clock st)"
      by blast
    have f: "frame st1 = frame st + 1" using w by (simp add: waited_def)
    obtain k where k: "k \<le> length rss" "jerk (l_clock st') = jerk (l_clock st1) + of_nat k"
      "k = 0 \<longrightarrow> tsc_clock (l_clock st') =
        tsc_clock (l_clock st1) + of_nat (length rss) * tsc_step (l_clock st1)"
      "frame st' = frame st1 + of_nat (length rss)"
      using Cons.IH [OF 1(2)] by blast
    show ?case
    proof (cases "jerk (l_clock st1) = jerk (l_clock st) \<and>
        tsc_clock (l_clock st1) = tsc_clock (l_clock st) + tsc_step (l_clock st)")
      case True
      then show ?thesis
        using k clock_sync_step(1) [OF now(1)] now(2) f
        by (intro exI [of _ k]) (auto simp: algebra_simps)
    next
      case False
      then have "jerk (l_clock st1) = jerk (l_clock st) + 1"
        using clock_sync_step(2) [OF now(1)] now(2) by auto
      then show ?thesis
        using k f by (intro exI [of _ "Suc k"]) (auto simp: algebra_simps)
    qed
  qed
  then obtain k where k: "k \<le> length rss" "jerk (l_clock st') = jerk (l_clock st) + of_nat k"
    "k = 0 \<longrightarrow> tsc_clock (l_clock st') =
        tsc_clock (l_clock st) + of_nat (length rss) * tsc_step (l_clock st)"
    "frame st' = frame st + of_nat (length rss)"
    by blast
  then have "(of_nat k :: u64) = 0" using assms(2) by simp
  moreover have "unat (of_nat k :: u64) = k" using k(1) assms(3) by (intro unat_of_nat64) simp
  ultimately have "k = 0" by simp
  then show ?thesis using k by simp
qed

theorem loop_no_drift_witness:
  "\<exists>st'. loop_syncs [[(50000, 0), (150000, 0)], [(230000, 0)]] (loop_start\<lparr>l_clock := example_clock 0\<rparr>)
      = Inr st' \<and> tsc_clock (l_clock st') = 200000"
proof -
  have run: "loop_syncs [[(50000, 0), (150000, 0)], [(230000, 0)]] (loop_start\<lparr>l_clock := example_clock 0\<rparr>) =
      Inr (loop_start\<lparr>l_clock := (example_clock 0)\<lparr>tsc_clock := 200000, frame_to_frame_tsc := 230000\<rparr>,
        frame := 2, sleep_usec := 49\<rparr>)"
    by (simp add: loop_sync_def loop_one_def loop_poll_def clock_sync_def Let_def example_clock_def loop_start_def
        tscdelta_to_usec_def)
  show ?thesis
    using loop_no_drift [OF run] run by (simp add: example_clock_def loop_start_def)
qed

end
