(* ===== verification/Notify.thy ===== *)
theory Notify
  imports CMacro Network
begin

unbundle bit_operations_syntax

text \<open>
  \<^verbatim>\<open>notify.c\<close>: the watch on the directory of the loaded code. The kernel's answers are arguments:
  descriptors, poll results and the bytes of the events.
\<close>

section \<open>State\<close>

text \<open>A descriptor polled and what poll reported for it.\<close>

record pollfd =
  pfd_fd :: int
  revents :: u16

record watch_t =
  w_nfds :: nat
  w_fds :: "pollfd list option"
  w_wd :: "int list option"
  watch_error :: int

definition watch_start :: watch_t where
  "watch_start = \<lparr>w_nfds = 0, w_fds = None, w_wd = None, watch_error = 0\<rparr>"

definition notify_last_error :: "watch_t \<Rightarrow> int" where
  "notify_last_error w = watch_error w"

definition NOTIFY_BUF :: nat where
  "NOTIFY_BUF = 4096"

definition sizeof_event :: nat where
  "sizeof_event = 16"

section \<open>Setting up\<close>

text \<open>The directories not yet watched, from number \<open>i\<close> on; \<open>inotify_init1 i\<close> is the \<open>i\<close>-th new
  descriptor.\<close>

fun notify_add ::
  "(nat \<Rightarrow> int) \<Rightarrow> (int \<Rightarrow> byte list \<Rightarrow> u32 \<Rightarrow> int) \<Rightarrow> u32 \<Rightarrow> nat \<Rightarrow> byte list list \<Rightarrow> watch_t \<Rightarrow>
   (bool \<times> watch_t) res"
where
  "notify_add inotify_init1 inotify_add_watch eventMask i [] w = Inr (True, w\<lparr>watch_error := 0\<rparr>)"
| "notify_add inotify_init1 inotify_add_watch eventMask i (arg # argv) w =
     (case (w_fds w, w_wd w) of
        (Some fs, Some ws) \<Rightarrow>
          let pfd = \<lparr>pfd_fd = inotify_init1 i, revents = 0\<rparr>;
              w1 = w\<lparr>w_nfds := w_nfds w + 1, w_fds := Some (fs[i := pfd])\<rparr>
          in if i \<ge> length fs \<or> i \<ge> length ws then Inl OutOfBounds
             else if pfd_fd pfd = - 1 then Inr (False, w1\<lparr>watch_error := 4\<rparr>)
             else
               let wdi = inotify_add_watch (pfd_fd pfd) arg eventMask;
                   w2 = w1\<lparr>w_wd := Some (ws[i := wdi])\<rparr>
               in if wdi = - 1 then Inr (False, w2\<lparr>watch_error := 5\<rparr>)
                  else notify_add inotify_init1 inotify_add_watch eventMask (i + 1) argv w2
      | _ \<Rightarrow> Inl NullDeref)"

text \<open>Whether each \<open>calloc\<close> succeeds.\<close>

definition notify_init ::
  "bool \<Rightarrow> bool \<Rightarrow> (nat \<Rightarrow> int) \<Rightarrow> (int \<Rightarrow> byte list \<Rightarrow> u32 \<Rightarrow> int) \<Rightarrow> u32 \<Rightarrow> byte list list \<Rightarrow> watch_t \<Rightarrow>
   (bool \<times> watch_t) res"
where
  "notify_init alloc1 alloc2 inotify_init1 inotify_add_watch eventMask argv w =
     (let argc = length argv in
      if \<not> alloc1 then Inr (False, w\<lparr>w_fds := None, watch_error := 2\<rparr>)
      else
        let w1 = w\<lparr>w_fds := Some (replicate argc \<lparr>pfd_fd = 0, revents = 0\<rparr>)\<rparr> in
        if \<not> alloc2 then Inr (False, w1\<lparr>w_wd := None, watch_error := 3\<rparr>)
        else notify_add inotify_init1 inotify_add_watch eventMask 0 argv
               (w1\<lparr>w_wd := Some (replicate argc 0), w_nfds := 0\<rparr>))"

section \<open>Polling\<close>

text \<open>A handler is called with the number of the watch and the buffer from the event on.\<close>

type_synonym 's notify_handler = "nat \<Rightarrow> byte list \<Rightarrow> 's \<Rightarrow> 's res"

definition event_len :: "byte list \<Rightarrow> nat" where
  "event_len view = unat (rd32 (drop 12 view))"

function notify_events ::
  "'s notify_handler \<Rightarrow> nat \<Rightarrow> byte list \<Rightarrow> nat \<Rightarrow> int \<Rightarrow> 's \<Rightarrow> 's res"
where
  "notify_events handler i buf event eventEnd s =
     (if int event \<ge> eventEnd then Inr s
      else if event + sizeof_event > length buf then Inl OutOfBounds
      else rbind (handler i (drop event buf) s)
             (notify_events handler i buf (event + sizeof_event + event_len (drop event buf)) eventEnd))"
  by pat_completeness auto
termination
  by (relation "measure (\<lambda>(_, i, buf, event, eventEnd, s). nat (eventEnd - int event))")
    (auto simp: sizeof_event_def)

declare notify_events.simps [simp del]

text \<open>The watches from number \<open>i\<close> on; \<open>rd i fd\<close> is what \<open>read\<close> answers: an error number, or the bytes
  put at the front of the static buffer.\<close>

fun notify_watches ::
  "(nat \<Rightarrow> int \<Rightarrow> read_out) \<Rightarrow> 's notify_handler \<Rightarrow> nat list \<Rightarrow> byte list \<Rightarrow> 's \<Rightarrow> watch_t \<Rightarrow>
   (bool \<times> byte list \<times> 's \<times> watch_t) res"
where
  "notify_watches rd handler [] buf s w = Inr (True, buf, s, w\<lparr>watch_error := 0\<rparr>)"
| "notify_watches rd handler (i # is) buf s w =
     (case w_fds w of
        None \<Rightarrow> Inl NullDeref
      | Some fs \<Rightarrow>
          if i \<ge> length fs then Inl OutOfBounds
          else if \<not> flagged (revents (fs ! i)) POLLIN then notify_watches rd handler is buf s w
          else
            let w1 = w\<lparr>w_fds := Some (fs[i := (fs ! i)\<lparr>revents := 0\<rparr>])\<rparr> in
            case rd i (pfd_fd (fs ! i)) of
              Read_err errno \<Rightarrow>
                if errno \<noteq> EAGAIN then Inr (False, buf, s, w1\<lparr>watch_error := 7\<rparr>)
                else rbind (notify_events handler i buf 0 (- 1) s) (\<lambda>s'.
                     notify_watches rd handler is buf s' w1)
            | Read_ok bs \<Rightarrow>
                rbind (opt_res OutOfBounds (mem_write 0 bs buf)) (\<lambda>buf1.
                rbind (notify_events handler i buf1 0 (int (length bs)) s) (\<lambda>s'.
                notify_watches rd handler is buf1 s' w1)))"

text \<open>\<open>poll\<close> answers an error number, or what it reports for each descriptor.\<close>

definition notify_poll ::
  "u32 + (nat \<Rightarrow> u16) \<Rightarrow> (nat \<Rightarrow> int \<Rightarrow> read_out) \<Rightarrow> 's notify_handler \<Rightarrow> byte list \<Rightarrow> 's \<Rightarrow> watch_t \<Rightarrow>
   (bool \<times> byte list \<times> 's \<times> watch_t) res"
where
  "notify_poll poll rd handler buf s w =
     (case poll of
        Inl errno \<Rightarrow>
          if errno = EINTR then Inr (True, buf, s, w)
          else Inr (False, buf, s, w\<lparr>watch_error := 6\<rparr>)
      | Inr report \<Rightarrow>
          notify_watches rd handler [0..<w_nfds w] buf s
            (w\<lparr>w_fds := map_option (\<lambda>fs. map (\<lambda>i. (fs ! i)\<lparr>revents := if i < w_nfds w then report i else revents (fs ! i)\<rparr>)
                                       [0..<length fs]) (w_fds w)\<rparr>))"

text \<open>The descriptors closed and the state left.\<close>

definition notify_shutdown :: "watch_t \<Rightarrow> (int list \<times> watch_t) res" where
  "notify_shutdown w =
     (if w_nfds w = 0 then Inr ([], w\<lparr>w_nfds := 0, w_fds := None, w_wd := None\<rparr>)
      else case w_fds w of
             None \<Rightarrow> Inl NullDeref
           | Some fs \<Rightarrow>
               if w_nfds w \<le> length fs
               then Inr (map (\<lambda>i. pfd_fd (fs ! i)) [0..<w_nfds w], w\<lparr>w_nfds := 0, w_fds := None, w_wd := None\<rparr>)
               else Inl OutOfBounds)"

section \<open>Events as the kernel writes them\<close>

text \<open>A header, then the name, padded with \<open>pad\<close> NULs. An event without a name has no bytes after the
  header.\<close>

record event =
  ev_wd :: u32
  ev_mask :: u32
  ev_cookie :: u32
  ev_name :: "byte list"
  ev_pad :: nat

definition event_bytes :: "event \<Rightarrow> byte list" where
  "event_bytes e =
     le32 (ev_wd e) @ le32 (ev_mask e) @ le32 (ev_cookie e) @
     le32 (of_nat (length (ev_name e) + ev_pad e)) @ ev_name e @ replicate (ev_pad e) 0"

definition event_ok :: "event \<Rightarrow> bool" where
  "event_ok e \<longleftrightarrow> nul_free (ev_name e) \<and> (0 < ev_pad e \<or> ev_name e = []) \<and> length (event_bytes e) \<le> NOTIFY_BUF"

definition named :: "event \<Rightarrow> bool" where
  "named e \<longleftrightarrow> ev_name e \<noteq> []"

lemma event_bytes_view:
  assumes "event_ok e"
  shows "length (event_bytes e) = sizeof_event + event_len (event_bytes e @ r)"
    and "named e \<Longrightarrow> cstr (drop sizeof_event (event_bytes e @ r)) = ev_name e"
    and "sizeof_event \<le> length (event_bytes e)"
proof -
  let ?n = "length (ev_name e) + ev_pad e"
  have len: "length (event_bytes e) = 16 + ?n" by (simp add: event_bytes_def)
  then have "?n < 2 ^ 32" using assms by (simp add: event_ok_def NOTIFY_BUF_def)
  then have "unat (of_nat ?n :: u32) = ?n" by (rule unat_of_nat32)
  moreover have "drop 12 (event_bytes e @ r) = le32 (of_nat ?n) @ ev_name e @ replicate (ev_pad e) 0 @ r"
    by (simp add: event_bytes_def)
  ultimately show "length (event_bytes e) = sizeof_event + event_len (event_bytes e @ r)"
    using len by (simp add: event_len_def sizeof_event_def)
  show "cstr (drop sizeof_event (event_bytes e @ r)) = ev_name e" if "named e"
  proof -
    have "drop 16 (event_bytes e @ r) = ev_name e @ 0 # replicate (ev_pad e - 1) 0 @ r"
      using assms that by (cases "ev_pad e") (simp_all add: event_bytes_def event_ok_def named_def)
    then show ?thesis using assms by (simp add: sizeof_event_def event_ok_def)
  qed
  show "sizeof_event \<le> length (event_bytes e)" using len by (simp add: sizeof_event_def)
qed

section \<open>Calls of the handler\<close>

text \<open>The calls of a handler for the events of watch \<open>i\<close> in the buffer: each is given the buffer from its
  event on, with the events after it and what was in the buffer before.\<close>

type_synonym notify_call = "nat \<times> byte list \<times> event"

fun event_calls :: "nat \<Rightarrow> event list \<Rightarrow> byte list \<Rightarrow> notify_call list" where
  "event_calls i [] r = []"
| "event_calls i (e # es) r = (i, event_bytes e @ concat (map event_bytes es) @ r, e) # event_calls i es r"

fun run_calls :: "'s notify_handler \<Rightarrow> notify_call list \<Rightarrow> 's \<Rightarrow> 's res" where
  "run_calls handler [] s = Inr s"
| "run_calls handler ((i, view, e) # cs) s = rbind (handler i view s) (run_calls handler cs)"

lemma rbind_assoc: "rbind (rbind m f) g = rbind m (\<lambda>x. rbind (f x) g)"
  by (cases m) simp_all

lemma run_calls_append:
  "run_calls handler (cs @ ds) s = rbind (run_calls handler cs s) (run_calls handler ds)"
proof (induction cs arbitrary: s)
  case (Cons c cs)
  obtain i view e where "c = (i, view, e)" by (cases c)
  then show ?case using Cons by (cases "handler i view s") auto
qed simp

text \<open>What a call has to show of its event: its bytes, and its name if it has one.\<close>

definition shows_event :: "notify_call \<Rightarrow> bool" where
  "shows_event c \<longleftrightarrow> (case c of (i, view, e) \<Rightarrow>
     take (length (event_bytes e)) view = event_bytes e \<and>
     (named e \<longrightarrow> cstr (drop sizeof_event view) = ev_name e))"

definition call_event :: "notify_call \<Rightarrow> nat \<times> event" where
  "call_event c = (fst c, snd (snd c))"

lemma event_calls_show:
  "\<forall>e \<in> set es. event_ok e \<Longrightarrow> \<forall>c \<in> set (event_calls i es r). shows_event c"
  by (induction es) (auto simp: shows_event_def event_bytes_view(2) simp del: drop_append)

lemma event_calls_events [simp]: "map call_event (event_calls i es r) = map (Pair i) es"
  by (induction es) (simp_all add: call_event_def)

lemma notify_events_all:
  assumes "\<forall>e \<in> set es. event_ok e"
  shows "notify_events handler i (pre @ concat (map event_bytes es) @ r) (length pre)
      (int (length pre + length (concat (map event_bytes es)))) s =
    run_calls handler (event_calls i es r) s"
  using assms
proof (induction es arbitrary: pre s)
  case Nil
  show ?case by (subst notify_events.simps) simp
next
  case (Cons e es)
  have e: "event_ok e" using Cons.prems by simp
  let ?rest = "concat (map event_bytes es) @ r"
  note v = event_bytes_view(1) [OF e, of ?rest] event_bytes_view(3) [OF e]
  let ?stop = "int (length pre + length (concat (map event_bytes (e # es))))"
  let ?buf = "pre @ concat (map event_bytes (e # es)) @ r"
  have view: "drop (length pre) ?buf = event_bytes e @ ?rest" by simp
  have "length ?buf = length pre + length (event_bytes e) + length ?rest" by simp
  then have room: "\<not> length pre + sizeof_event > length ?buf" using v(2) by linarith
  have "length (concat (map event_bytes (e # es))) = length (event_bytes e) + length (concat (map event_bytes es))"
    by simp
  then have more: "\<not> int (length pre) \<ge> ?stop" using v(2) unfolding sizeof_event_def by linarith
  have next_event: "length pre + sizeof_event + event_len (event_bytes e @ ?rest) = length (pre @ event_bytes e)"
    unfolding length_append v(1) by (simp only: add.assoc)
  have IH: "notify_events handler i ?buf (length (pre @ event_bytes e)) ?stop =
      run_calls handler (event_calls i es r)"
    using Cons.IH [of "pre @ event_bytes e"] Cons.prems by (simp add: add.assoc fun_eq_iff)
  show ?case
    unfolding notify_events.simps [of _ _ _ "length pre"] if_not_P [OF more] if_not_P [OF room] view
      next_event IH by simp
qed

lemma notify_events_none [simp]: "notify_events handler i buf 0 (- 1) s = Inr s"
  by (subst notify_events.simps) simp

section \<open>Properties\<close>

definition watch_wf :: "watch_t \<Rightarrow> bool" where
  "watch_wf w \<longleftrightarrow> (case w_fds w of None \<Rightarrow> w_nfds w = 0 | Some fs \<Rightarrow> w_nfds w \<le> length fs)"

text \<open>What one watch delivers: the events read, or nothing when the read would block.\<close>

definition delivers :: "read_out \<Rightarrow> event list \<Rightarrow> bool" where
  "delivers r es \<longleftrightarrow>
     r = Read_err EAGAIN \<and> es = [] \<or>
     r = Read_ok (concat (map event_bytes es)) \<and> (\<forall>e \<in> set es. event_ok e) \<and>
       length (concat (map event_bytes es)) \<le> NOTIFY_BUF"

definition reported :: "u16 \<Rightarrow> event list \<Rightarrow> event list" where
  "reported revs es = (if flagged revs POLLIN then es else [])"

text \<open>The watches \<open>is\<close> in order, with what the kernel reports for each.\<close>

definition all_reported :: "(nat \<Rightarrow> u16) \<Rightarrow> (nat \<Rightarrow> event list) \<Rightarrow> nat list \<Rightarrow> (nat \<times> event) list" where
  "all_reported report es is = concat (map (\<lambda>i. map (Pair i) (reported (report i) (es i))) is)"

lemma all_reported_simps [simp]:
  "all_reported report es [] = []"
  "all_reported report es (i # is) = map (Pair i) (reported (report i) (es i)) @ all_reported report es is"
  by (simp_all add: all_reported_def)

lemma all_reported_cong: "(\<And>i. i \<in> set is \<Longrightarrow> f i = g i) \<Longrightarrow> all_reported f es is = all_reported g es is"
  by (induction "is") simp_all

text \<open>One watch: the buffer and the state of the handler after it.\<close>

lemma notify_watch_step:
  assumes "w_fds w = Some fs" and "i < length fs" and "flagged (revents (fs ! i)) POLLIN"
    and "delivers (rd i (pfd_fd (fs ! i))) es" and "length buf = NOTIFY_BUF"
  shows "\<exists>cs buf1. map call_event cs = map (Pair i) es \<and> (\<forall>c \<in> set cs. shows_event c) \<and>
    length buf1 = NOTIFY_BUF \<and>
    (\<forall>handler s. notify_watches rd handler (i # is) buf s w =
       rbind (run_calls (handler :: 's notify_handler) cs s) (\<lambda>s'.
       notify_watches rd handler is buf1 s' (w\<lparr>w_fds := Some (fs[i := (fs ! i)\<lparr>revents := 0\<rparr>])\<rparr>)))"
proof (cases "rd i (pfd_fd (fs ! i)) = Read_err EAGAIN")
  case True
  then have "es = []" using assms(4) by (simp add: delivers_def)
  then show ?thesis
    using assms True by (intro exI [of _ "[]"] exI [of _ buf]) simp
next
  case False
  let ?bs = "concat (map event_bytes es)"
  have r: "rd i (pfd_fd (fs ! i)) = Read_ok ?bs" "\<forall>e \<in> set es. event_ok e" "length ?bs \<le> NOTIFY_BUF"
    using assms(4) False by (auto simp: delivers_def)
  let ?r = "drop (length ?bs) buf"
  have "mem_write 0 ?bs buf = Some (?bs @ ?r)" using r(3) assms(5) by (simp add: mem_write_Some)
  moreover have "notify_events handler i (?bs @ ?r) 0 (int (length ?bs)) s = run_calls handler (event_calls i es ?r) s"
    for handler :: "'s notify_handler" and s
    using notify_events_all [OF r(2), of handler i "[]" ?r s] by simp
  ultimately show ?thesis
    using r assms event_calls_show [OF r(2)]
    by (intro exI [of _ "event_calls i es ?r"] exI [of _ "?bs @ ?r"]) (simp add: Let_def)
qed

lemma notify_watches_all:
  assumes "w_fds w = Some fs" and "\<forall>i \<in> set is. i < length fs" and "distinct is"
    and "\<forall>i \<in> set is. flagged (revents (fs ! i)) POLLIN \<longrightarrow> delivers (rd i (pfd_fd (fs ! i))) (es i)"
    and "length buf = NOTIFY_BUF"
  shows "\<exists>cs buf' w'. map call_event cs = all_reported (\<lambda>i. revents (fs ! i)) es is \<and>
    (\<forall>c \<in> set cs. shows_event c) \<and> length buf' = NOTIFY_BUF \<and> watch_error w' = 0 \<and>
    (\<forall>handler s. notify_watches rd handler is buf s w =
       rbind (run_calls (handler :: 's notify_handler) cs s) (\<lambda>s'. Inr (True, buf', s', w')))"
  using assms
proof (induction "is" arbitrary: buf w fs)
  case Nil
  then show ?case by (intro exI [of _ "[]"] exI [of _ buf] exI [of _ "w\<lparr>watch_error := 0\<rparr>"]) simp
next
  case (Cons i "is")
  have i: "i < length fs" "i \<notin> set is" using Cons.prems(2,3) by auto
  show ?case
  proof (cases "flagged (revents (fs ! i)) POLLIN")
    case False
    then show ?thesis
      using Cons.IH [OF Cons.prems(1) _ _ _ Cons.prems(5)] Cons.prems i by (simp add: reported_def)
  next
    case True
    let ?fs = "fs[i := (fs ! i)\<lparr>revents := 0\<rparr>]"
    let ?w = "w\<lparr>w_fds := Some ?fs\<rparr>"
    have other: "?fs ! j = fs ! j" if "j \<in> set is" for j
      using that i by (cases "j = i") auto
    have d: "delivers (rd i (pfd_fd (fs ! i))) (es i)" using Cons.prems(4) True by simp
    obtain cs buf1 where b: "map call_event cs = map (Pair i) (es i)" "\<forall>c \<in> set cs. shows_event c"
      "length buf1 = NOTIFY_BUF"
      "\<And>(handler :: 's notify_handler) s. notify_watches rd handler (i # is) buf s w =
        rbind (run_calls handler cs s) (\<lambda>s'. notify_watches rd handler is buf1 s' ?w)"
      using notify_watch_step [where es = "es i" and rd = rd and ?'s = 's, OF Cons.prems(1) i(1) True d Cons.prems(5)] by blast
    obtain ds buf' w' where c: "map call_event ds = all_reported (\<lambda>i. revents (?fs ! i)) es is"
      "\<forall>c \<in> set ds. shows_event c" "length buf' = NOTIFY_BUF" "watch_error w' = 0"
      "\<And>(handler :: 's notify_handler) s. notify_watches rd handler is buf1 s ?w =
        rbind (run_calls handler ds s) (\<lambda>s'. Inr (True, buf', s', w'))"
      using Cons.IH [of ?w ?fs buf1] Cons.prems(2-4) b(3) other by auto
    have "all_reported (\<lambda>i. revents (?fs ! i)) es is = all_reported (\<lambda>i. revents (fs ! i)) es is"
      by (rule all_reported_cong) (simp add: other)
    then show ?thesis
      using b c True
      by (intro exI [of _ "cs @ ds"] exI [of _ buf'] exI [of _ w'])
        (auto simp: reported_def run_calls_append rbind_assoc)
  qed
qed

text \<open>C12: A poll calls the handler once for every event the kernel reports, with or without a name, watch
  by watch and in order, whatever was in the static buffer, and returns true with the error cleared
  unless the handler faults. Each call is shown the bytes of its event at the front of its argument,
  and reads the event's name there if it has one. A read that would block hands over nothing.\<close>

theorem notify_poll_delivers:
  assumes "w_fds w = Some fs" and "w_nfds w \<le> length fs" and "length buf = NOTIFY_BUF"
    and "\<forall>i < w_nfds w. flagged (report i) POLLIN \<longrightarrow> delivers (rd i (pfd_fd (fs ! i))) (es i)"
  shows "\<exists>cs buf' w'. map call_event cs = all_reported report es [0..<w_nfds w] \<and>
    (\<forall>c \<in> set cs. shows_event c) \<and> length buf' = NOTIFY_BUF \<and> notify_last_error w' = 0 \<and>
    (\<forall>handler s. notify_poll (Inr report) rd (handler :: 's notify_handler) buf s w =
       rbind (run_calls handler cs s) (\<lambda>s'. Inr (True, buf', s', w')))"
proof -
  let ?fs = "map (\<lambda>i. (fs ! i)\<lparr>revents := if i < w_nfds w then report i else revents (fs ! i)\<rparr>) [0..<length fs]"
  have nth: "revents (?fs ! i) = report i" "pfd_fd (?fs ! i) = pfd_fd (fs ! i)" if "i < w_nfds w" for i
    using that assms(2) by simp_all
  have "all_reported (\<lambda>i. revents (?fs ! i)) es [0..<w_nfds w] = all_reported report es [0..<w_nfds w]"
    by (rule all_reported_cong) (simp add: nth)
  moreover have "\<forall>i \<in> set [0..<w_nfds w]. flagged (revents (?fs ! i)) POLLIN \<longrightarrow>
      delivers (rd i (pfd_fd (?fs ! i))) (es i)"
    using assms(4) nth by simp
  ultimately show ?thesis
    using notify_watches_all [of "w\<lparr>w_fds := Some ?fs\<rparr>" ?fs "[0..<w_nfds w]" rd es buf, where ?'s = 's] assms(1-3)
    by (simp add: notify_poll_def notify_last_error_def)
qed

text \<open>A file that was written, and the event without a name that tells of a removed watch.\<close>

definition two_events :: "event list" where
  "two_events =
     [\<lparr>ev_wd = 1, ev_mask = 8, ev_cookie = 0, ev_name = str ''a.so'', ev_pad = 12\<rparr>,
      \<lparr>ev_wd = 1, ev_mask = 0x8000, ev_cookie = 0, ev_name = [], ev_pad = 0\<rparr>]"

lemma shows_mask: "shows_event (i, view, e) \<Longrightarrow> rd32 (drop 4 view) = ev_mask e"
proof -
  assume "shows_event (i, view, e)"
  then have "take (length (event_bytes e)) view = event_bytes e" by (simp add: shows_event_def)
  then obtain r where "view = event_bytes e @ r" using take_eq_split by blast
  then show ?thesis by (simp add: event_bytes_def)
qed

theorem notify_poll_delivers_witness:
  "\<exists>buf' w'. notify_poll (Inr (\<lambda>_. POLLIN)) (\<lambda>_ _. Read_ok (concat (map event_bytes two_events)))
      (\<lambda>i view ns. Inr (ns @ [rd32 (drop 4 view)])) (replicate NOTIFY_BUF 7) []
      (watch_start\<lparr>w_nfds := 1, w_fds := Some [\<lparr>pfd_fd = 5, revents = 0\<rparr>]\<rparr>) =
    Inr (True, buf', [8, 0x8000], w')"
proof -
  let ?w = "watch_start\<lparr>w_nfds := 1, w_fds := Some [\<lparr>pfd_fd = 5, revents = 0\<rparr>]\<rparr>"
  let ?rd = "\<lambda>_ _. Read_ok (concat (map event_bytes two_events))"
  let ?h = "\<lambda>i view ns. Inr (ns @ [rd32 (drop 4 view)]) :: u32 list res"
  have "delivers (Read_ok (concat (map event_bytes two_events))) two_events"
    by (simp add: delivers_def two_events_def event_ok_def event_bytes_def NOTIFY_BUF_def ch_def)
  then have d: "\<forall>i < w_nfds ?w. flagged POLLIN POLLIN \<longrightarrow> delivers (Read_ok (concat (map event_bytes two_events))) two_events"
    by blast
  have pre: "w_fds ?w = Some [\<lparr>pfd_fd = 5, revents = 0\<rparr>]" "w_nfds ?w \<le> length [\<lparr>pfd_fd = 5, revents = 0\<rparr>]"
    "length (replicate NOTIFY_BUF (7 :: byte)) = NOTIFY_BUF" by simp_all
  from notify_poll_delivers [where ?'s = "u32 list" and report = "\<lambda>_. POLLIN" and rd = ?rd and
      es = "\<lambda>_. two_events", OF pre d]
  obtain cs buf' w' where cs: "map call_event cs = all_reported (\<lambda>_. POLLIN) (\<lambda>_. two_events) [0..<w_nfds ?w]"
    "\<forall>c \<in> set cs. shows_event c" "length buf' = NOTIFY_BUF" "notify_last_error w' = 0"
    "\<forall>handler s. notify_poll (Inr (\<lambda>_. POLLIN)) ?rd (handler :: u32 list notify_handler) (replicate NOTIFY_BUF 7) s ?w =
      rbind (run_calls handler cs s) (\<lambda>s'. Inr (True, buf', s', w'))"
    by (elim exE conjE)
  have "flagged POLLIN POLLIN" by (simp add: flagged_def poll_bits)
  then have "map call_event cs = map (Pair 0) two_events" using cs(1) by (simp add: reported_def)
  then obtain v1 v2 where calls: "cs = [(0, v1, two_events ! 0), (0, v2, two_events ! 1)]"
    by (auto simp: call_event_def two_events_def map_eq_Cons_conv)
  have "run_calls ?h cs [] = Inr [ev_mask (two_events ! 0), ev_mask (two_events ! 1)]"
    using cs(2) unfolding calls by (auto dest: shows_mask)
  also have "\<dots> = Inr [8, 0x8000]" by (simp add: two_events_def)
  finally have "notify_poll (Inr (\<lambda>_. POLLIN)) ?rd ?h (replicate NOTIFY_BUF 7) [] ?w = Inr (True, buf', [8, 0x8000], w')"
    by (simp only: cs(5) rbind_simps)
  then show ?thesis by (intro exI)
qed

text \<open>The number of entries \<open>notify_init\<close> has filled when its first \<open>n\<close> of \<open>c\<close> directories are fine: the one
  that fails is counted too.\<close>

abbreviation (input) entries :: "nat \<Rightarrow> nat \<Rightarrow> nat" where
  "entries n c \<equiv> if n = c then n else Suc n"

lemma notify_add_spec:
  assumes "w_fds w = Some fs" "w_wd w = Some ws" "length fs = i + length argv" "length ws = i + length argv"
    "w_nfds w = i" "\<forall>j < i. pfd_fd (fs ! j) = inotify_init1 j" "n \<le> length argv"
    "\<forall>j < n. inotify_init1 (i + j) \<noteq> - 1 \<and> aw (inotify_init1 (i + j)) (argv ! j) evs \<noteq> - 1"
    "n < length argv \<Longrightarrow> inotify_init1 (i + n) = - 1 \<or> aw (inotify_init1 (i + n)) (argv ! n) evs = - 1"
  shows "\<exists>w' fs'. notify_add inotify_init1 aw evs i argv w = Inr (n = length argv, w') \<and>
    w_nfds w' = i + entries n (length argv) \<and> w_fds w' = Some fs' \<and> length fs' = i + length argv \<and>
    (\<forall>j < w_nfds w'. pfd_fd (fs' ! j) = inotify_init1 j) \<and>
    watch_error w' = (if n = length argv then 0 else if inotify_init1 (i + n) = - 1 then 4 else 5)"
  using assms
proof (induction argv arbitrary: i w fs ws n)
  case Nil
  then show ?case by auto
next
  case (Cons arg argv)
  let ?fs = "fs[i := \<lparr>pfd_fd = inotify_init1 i, revents = 0\<rparr>]"
  let ?ws = "ws[i := aw (inotify_init1 i) arg evs]"
  have i: "i < length fs" "i < length ws" using Cons.prems(3,4) by simp_all
  have fd: "\<forall>j < Suc i. pfd_fd (?fs ! j) = inotify_init1 j"
    using Cons.prems(6) i by (auto simp: less_Suc_eq nth_list_update)
  show ?case
  proof (cases n)
    case 0
    then have bad: "inotify_init1 i = - 1 \<or> aw (inotify_init1 i) arg evs = - 1" using Cons.prems(9) by simp
    show ?thesis
      using bad fd 0 Cons.prems(1-5) i by (auto simp: Let_def)
  next
    case (Suc m)
    define w2 where "w2 = w\<lparr>w_nfds := Suc i, w_fds := Some ?fs, w_wd := Some ?ws\<rparr>"
    have good: "inotify_init1 i \<noteq> - 1" "aw (inotify_init1 i) arg evs \<noteq> - 1"
      using Cons.prems(8) Suc by (auto dest: spec [of _ 0])
    have step: "notify_add inotify_init1 aw evs i (arg # argv) w = notify_add inotify_init1 aw evs (Suc i) argv w2"
      using good Cons.prems(1,2,5) i by (simp add: Let_def w2_def)
    have m: "m \<le> length argv"
      "\<forall>j < m. inotify_init1 (Suc i + j) \<noteq> - 1 \<and> aw (inotify_init1 (Suc i + j)) (argv ! j) evs \<noteq> - 1"
      "m < length argv \<Longrightarrow> inotify_init1 (Suc i + m) = - 1 \<or> aw (inotify_init1 (Suc i + m)) (argv ! m) evs = - 1"
      using Cons.prems(7-9) Suc by (auto dest: spec [of _ "Suc _"])
    have w2: "w_fds w2 = Some ?fs" "w_wd w2 = Some ?ws" "length ?fs = Suc i + length argv"
      "length ?ws = Suc i + length argv" "w_nfds w2 = Suc i"
      using Cons.prems(3,4) by (simp_all add: w2_def)
    have eqs: "i + entries n (length (arg # argv)) = Suc i + entries m (length argv)"
      "(n = length (arg # argv)) = (m = length argv)" "i + n = Suc i + m"
      "i + length (arg # argv) = Suc i + length argv"
      using Suc by simp_all
    show ?thesis
      unfolding step eqs(1) unfolding eqs(2-4) by (rule Cons.IH [OF w2 fd m])
  qed
qed

text \<open>C23: Setting up and shutting down are balanced. When the first \<open>n\<close> directories get a descriptor and a
  watch and the next one, if there is one, does not, \<open>notify_init\<close> succeeds exactly if there is no next one,
  and otherwise names the call that failed. \<open>notify_shutdown\<close> then closes every descriptor that was
  requested, in order, the failing entry included (for error 4 that is a harmless \<open>close(-1)\<close>), and
  forgets them.\<close>

theorem notify_closes_all:
  assumes "n \<le> length argv" "\<forall>j < n. inotify_init1 j \<noteq> - 1 \<and> aw (inotify_init1 j) (argv ! j) evs \<noteq> - 1"
    "n < length argv \<Longrightarrow> inotify_init1 n = - 1 \<or> aw (inotify_init1 n) (argv ! n) evs = - 1"
  shows "\<exists>w. notify_init True True inotify_init1 aw evs argv watch_start = Inr (n = length argv, w) \<and>
    notify_last_error w = (if n = length argv then 0 else if inotify_init1 n = - 1 then 4 else 5) \<and>
    notify_shutdown w = Inr (map inotify_init1 [0..<if n = length argv then n else Suc n],
      \<lparr>w_nfds = 0, w_fds = None, w_wd = None, watch_error = notify_last_error w\<rparr>)"
proof -
  let ?fs = "replicate (length argv) \<lparr>pfd_fd = 0, revents = 0\<rparr>"
  let ?w = "watch_start\<lparr>w_fds := Some ?fs, w_wd := Some (replicate (length argv) 0), w_nfds := 0\<rparr>"
  obtain w' fs' where r: "notify_add inotify_init1 aw evs 0 argv ?w = Inr (n = length argv, w')"
    "w_nfds w' = entries n (length argv)" "w_fds w' = Some fs'" "length fs' = length argv"
    "\<forall>j < w_nfds w'. pfd_fd (fs' ! j) = inotify_init1 j"
    "watch_error w' = (if n = length argv then 0 else if inotify_init1 n = - 1 then 4 else 5)"
    using notify_add_spec [of ?w ?fs "replicate (length argv) 0" 0 argv inotify_init1 n aw evs] assms by auto
  have "w_nfds w' \<le> length fs'" using r(2,4) assms(1) by simp
  moreover have "map (\<lambda>i. pfd_fd (fs' ! i)) [0..<w_nfds w'] = map inotify_init1 [0..<w_nfds w']" using r(5) by simp
  ultimately have "notify_shutdown w' = Inr (map inotify_init1 [0..<entries n (length argv)],
      \<lparr>w_nfds = 0, w_fds = None, w_wd = None, watch_error = notify_last_error w'\<rparr>)"
    using r(2,3) by (cases w') (auto simp: notify_shutdown_def notify_last_error_def)
  moreover have "notify_init True True inotify_init1 aw evs argv watch_start = Inr (n = length argv, w')"
    using r(1) by (simp add: notify_init_def Let_def)
  ultimately show ?thesis using r(6) unfolding notify_last_error_def by blast
qed

text \<open>Of three directories the second cannot be watched: both descriptors opened so far are closed.\<close>

theorem notify_closes_all_witness:
  "\<exists>w. notify_init True True (\<lambda>i. 3 + int i) (\<lambda>fd d e. if fd = 4 then - 1 else 1) 2 [[97], [98], [99]] watch_start =
      Inr (False, w) \<and>
    notify_shutdown w = Inr ([3, 4], \<lparr>w_nfds = 0, w_fds = None, w_wd = None, watch_error = 5\<rparr>)"
  using notify_closes_all [of 1 "[[97], [98], [99]]" "\<lambda>i. 3 + int i" "\<lambda>fd d e. if fd = 4 then - 1 else 1" 2]
  by (auto simp: upt_rec)

end
