(* ===== verification/Main_Loop.thy ===== *)
theory Main_Loop
  imports Commands Connection Input Loop Notify
begin

unbundle bit_operations_syntax

text \<open>
  \<^verbatim>\<open>main.c\<close>: the game. In every frame the components are polled, the recorded input is exchanged with
  the server, and one command of every player is executed before the loaded functions run.
\<close>

section \<open>State\<close>

definition dlpath :: "byte list" where
  "dlpath = str ''code/feature.so''"

definition watch_dirs :: "byte list list" where
  "watch_dirs = [str ''code'']"

definition IN_CLOSE_WRITE :: u32 where
  "IN_CLOSE_WRITE = 8"

text \<open>A frame: its buffer, and the place and length of each player's command in it.\<close>

record frame_t =
  fr_buffer :: "byte list"
  fr_command :: "(nat \<times> nat) list"

record preview_t =
  turn_nearest :: u32
  turn_farthest :: u32

text \<open>The program's variables, those of its parts included; \<open>tsc_count\<close> counts the readings of the
  time stamp counter.\<close>

record game =
  simulation_goal :: u32
  exiting :: bool
  input_rw :: rw_t
  game_record :: "rw_t list"
  frame_store :: rw_t
  frame_buffer :: "byte list"
  perf_stats :: "double stats list"
  perf :: "double list"
  tsc_count :: nat
  g_machine :: machine
  g_loop :: loop_t
  g_input :: input_t
  g_watch :: watch_t
  g_watch_buf :: "byte list"
  g_conn :: conn_t

definition game_start :: "memory \<Rightarrow> game" where
  "game_start mem =
     \<lparr>simulation_goal = 0, exiting = False,
      input_rw = \<lparr>rw_rec = None, rw_read = offset_zero, rw_write = offset_zero\<rparr>,
      game_record = replicate max_player \<lparr>rw_rec = None, rw_read = offset_zero, rw_write = offset_zero\<rparr>,
      frame_store = \<lparr>rw_rec = None, rw_read = offset_zero, rw_write = offset_zero\<rparr>,
      frame_buffer = replicate 4096 0, perf_stats = replicate MAX_SYMBOLS (stats_init doubles),
      perf = replicate MAX_SYMBOLS 0, tsc_count = 0, g_machine = machine_start mem,
      g_loop = loop_start, g_input = input_start, g_watch = watch_start,
      g_watch_buf = replicate NOTIFY_BUF 0, g_conn = conn_start\<rparr>"

definition FRAME_BUF_LEN :: nat where
  "FRAME_BUF_LEN = 4096"

text \<open>What the world answers during one round of the loop.\<close>

record env =
  e_notify_poll :: "u32 + (nat \<Rightarrow> u16)"
  e_notify_read :: "nat \<Rightarrow> int \<Rightarrow> read_out"
  e_stdin_poll :: "int \<Rightarrow> u16 \<Rightarrow> poll_out"
  e_stdin_read :: read_out
  e_conn_poll :: "int \<Rightarrow> u16 \<Rightarrow> poll_out"
  e_conn_read :: read_out
  e_conn_write :: "byte list \<Rightarrow> write_out"
  e_alloc :: allocator
  e_clk :: int
  e_readings :: "(u64 \<times> nat) list"
  e_lib :: library
  e_tsc :: "nat \<Rightarrow> u64"
  e_junk :: "nat \<Rightarrow> param"

section \<open>Frames\<close>

fun preview_from :: "rw_t list \<Rightarrow> preview_t \<Rightarrow> preview_t" where
  "preview_from [] p = p"
| "preview_from (rw # rws) p =
     (let rcmd = command_count (rw_read rw); wcmd = command_count (rw_write rw)
      in preview_from rws
           \<lparr>turn_nearest = c_min (wcmd - rcmd) (turn_nearest p),
            turn_farthest = c_max (wcmd - rcmd) (turn_farthest p)\<rparr>)"

definition command_preview :: "nat \<Rightarrow> rw_t list \<Rightarrow> loop_t \<Rightarrow> preview_t" where
  "command_preview player_count recording lp =
     preview_from (take player_count recording)
       \<lparr>turn_nearest = loop_input_queue_max lp, turn_farthest = 0\<rparr>"

text \<open>The commands of the players left; \<open>w\<close> is the place in the buffer to write at. The result is
  \<open>None\<close> when a command does not fit.\<close>

fun frame_from ::
  "nat list \<Rightarrow> nat \<Rightarrow> frame_t \<Rightarrow> rw_t list \<Rightarrow> (frame_t option \<times> rw_t list) res"
where
  "frame_from [] w fr recording = Inr (Some fr, recording)"
| "frame_from (i # is) w fr recording =
     rbind (rw_fetch (recording ! i)) (\<lambda>(cmd, cmd_len, rw').
     let n = unat cmd_len; recording' = recording[i := rw'] in
     if w + n \<ge> FRAME_BUF_LEN then Inr (None, recording')
     else
       rbind (case cmd of None \<Rightarrow> Inr [] | Some p \<Rightarrow> opt_res OutOfBounds (mem_read 0 n p)) (\<lambda>src.
       rbind (opt_res OutOfBounds (mem_write w src (fr_buffer fr))) (\<lambda>b1.
       rbind (opt_res OutOfBounds (mem_write (w + n) [0] b1)) (\<lambda>b2.
       frame_from is (w + n + 1)
         \<lparr>fr_buffer = b2, fr_command = fr_command fr @ [(w, n)]\<rparr> recording'))))"

definition command_frame ::
  "nat \<Rightarrow> rw_t list \<Rightarrow> byte list \<Rightarrow> (frame_t option \<times> rw_t list) res"
where
  "command_frame player_count recording buffer =
     frame_from [0..<player_count] 0 \<lparr>fr_buffer = buffer, fr_command = []\<rparr> recording"

definition game_players :: "rw_t list \<Rightarrow> nat" where
  "game_players recording = length (filter (\<lambda>rw. rw_rec rw \<noteq> None) (take max_player recording))"

section \<open>Callbacks\<close>

text \<open>A line typed; \<open>clk\<close> is the reading of \<open>clock()\<close>. Printing changes nothing.\<close>

definition input_callback :: "allocator \<Rightarrow> int \<Rightarrow> nat \<Rightarrow> byte list \<Rightarrow> game \<Rightarrow> game res" where
  "input_callback alc clk n line g =
     (if first_char line \<noteq> ch CHR ''!'' then
        rbind (rw_append alc (of_nat n) line (input_rw g)) (\<lambda>rw. Inr (g\<lparr>input_rw := rw\<rparr>))
      else
        let c = first_char (drop 1 line) in
        if c = ch CHR ''l'' then rbind (loop_print_status clk (g_loop g)) (\<lambda>_. Inr g)
        else if c = ch CHR ''q'' then
          Inr (g\<lparr>simulation_goal := 0, exiting := True, g_loop := loop_halt (g_loop g)\<rparr>)
        else if c = ch CHR ''r'' then Inr (g\<lparr>simulation_goal := 0, g_loop := loop_halt (g_loop g)\<rparr>)
        else Inr g)"

definition notify_callback :: "nat \<Rightarrow> byte list \<Rightarrow> game \<Rightarrow> game res" where
  "notify_callback idx view g =
     rbind (opt_res OutOfBounds (strlen (drop sizeof_event view))) (\<lambda>_.
     Inr (if strstr dlpath (cstr (drop sizeof_event view))
          then g\<lparr>simulation_goal := 0, g_loop := loop_halt (g_loop g)\<rparr> else g))"

text \<open>A command; \<open>input\<close> is the buffer from its first character on.\<close>

definition on_machine :: "game \<Rightarrow> machine res \<Rightarrow> game res" where
  "on_machine g r = rbind r (\<lambda>m. Inr (g\<lparr>g_machine := m\<rparr>))"

definition execute_any :: "env \<Rightarrow> nat \<Rightarrow> byte list \<Rightarrow> game \<Rightarrow> game res" where
  "execute_any e len input g =
     (let c = first_char input; m = g_machine g in
      if c = ch CHR ''b'' then
        rbind (execute_benchmark (e_lib e) (e_tsc e) (tsc_count g) m) (\<lambda>(_, t, m').
        Inr (g\<lparr>tsc_count := t, g_machine := m'\<rparr>))
      else if c = ch CHR ''c'' then rbind (execute_condition (e_junk e 0) len input m) (\<lambda>_. Inr g)
      else if c = ch CHR ''h'' then on_machine g (execute_hash m)
      else if c = ch CHR ''m'' then on_machine g (execute_mutation len input m)
      else if c = ch CHR ''o'' then rbind (execute_object len input m) (\<lambda>_. Inr g)
      else if c = ch CHR ''p'' then on_machine g (execute_parameter len input m)
      else if c = ch CHR ''r'' then on_machine g (execute_result len input m)
      else if c = ch CHR ''s'' then
        rbind (execute_simulation len input) (\<lambda>goal. Inr (g\<lparr>simulation_goal := goal\<rparr>))
      else if c = ch CHR ''v'' then on_machine g (execute_variable len input m)
      else Inr g)"

fun execute_commands :: "env \<Rightarrow> byte list \<Rightarrow> (nat \<times> nat) list \<Rightarrow> game \<Rightarrow> game res" where
  "execute_commands e buffer [] g = Inr g"
| "execute_commands e buffer ((off, len) # cs) g =
     rbind (execute_any e len (drop off buffer) g) (execute_commands e buffer cs)"

section \<open>The loaded functions of a frame\<close>

text \<open>One function: its parameters are loaded, it is called between two readings of the counter, and
  its result is stored.\<close>

definition run_function ::
  "library \<Rightarrow> (nat \<Rightarrow> u64) \<Rightarrow> nat \<Rightarrow> nat \<Rightarrow> machine \<Rightarrow> (double \<times> machine) res"
where
  "run_function lib rd t i m =
     rbind (call_load_param lib i m) (\<lambda>m1.
     rbind (functor_invoke (call_func lib) (fnctor (dlfn_function (dlfn m1) ! i)) m1) (\<lambda>(r, m2).
     rbind (call_store_result lib i (m2\<lparr>result := (result m2)[i := r]\<rparr>)) (\<lambda>m3.
     Inr (to_double (rd (t + 1) - rd t), m3))))"

fun run_functions ::
  "library \<Rightarrow> (nat \<Rightarrow> u64) \<Rightarrow> nat list \<Rightarrow> double list \<Rightarrow> nat \<Rightarrow> machine \<Rightarrow>
   (double list \<times> nat \<times> machine) res"
where
  "run_functions lib rd [] pf t m = Inr (pf, t, m)"
| "run_functions lib rd (i # is) pf t m =
     rbind (run_function lib rd t i m) (\<lambda>(d, m').
     run_functions lib rd is (pf[i := d]) (t + 2) m')"

fun add_perf :: "nat list \<Rightarrow> double list \<Rightarrow> double stats list \<Rightarrow> double stats list" where
  "add_perf [] pf st = st"
| "add_perf (i # is) pf st = add_perf is pf (st[i := stats_add doubles (pf ! i) (st ! i)])"

fun store_objects :: "allocator \<Rightarrow> memory \<Rightarrow> object_t list \<Rightarrow> rw_t \<Rightarrow> rw_t res" where
  "store_objects alc mem [] rw = Inr rw"
| "store_objects alc mem (ob # obs) rw =
     rbind (rw_append alc (bytes ob) (object_bytes mem ob) rw) (store_objects alc mem obs)"

section \<open>A round of the loop\<close>

text \<open>Empty commands are recorded up to the target; \<open>n\<close> bounds their number.\<close>

fun fill_input :: "nat \<Rightarrow> allocator \<Rightarrow> u32 \<Rightarrow> rw_t \<Rightarrow> rw_t res" where
  "fill_input 0 alc target rw = Inl Diverge"
| "fill_input (Suc n) alc target rw =
     (if \<not> target > command_count (rw_write rw) then Inr rw
      else rbind (rw_append alc 0 [] rw) (fill_input n alc target))"

text \<open>A step of the simulation: the variables' operations and the functions; then the bookkeeping.\<close>

definition simulate :: "env \<Rightarrow> game \<Rightarrow> (double list \<times> nat \<times> machine) res" where
  "simulate e g =
     rbind (global_var_ops (e_junk e) (globals (g_machine g))) (\<lambda>gl.
     let m = (g_machine g)\<lparr>globals := gl\<rparr> in
     run_functions (e_lib e) (e_tsc e) [0..<dlfn_used_function (dlfn m)] (perf g) (tsc_count g) m)"

definition game_advance :: "env \<Rightarrow> game \<Rightarrow> game res" where
  "game_advance e g =
     rbind (simulate e g) (\<lambda>(pf, t, m).
     let st = add_perf [0..<dlfn_used_function (dlfn m)] pf (perf_stats g);
         obs = take (dlfn_used_object (dlfn m)) (dlfn_object (dlfn m)) in
     rbind (store_objects (e_alloc e) (memory m) obs (frame_store g)) (\<lambda>rw.
     rbind (loop_sync (e_readings e) (g_loop g)) (\<lambda>lp.
     Inr (g\<lparr>g_machine := m, perf := pf, tsc_count := t, perf_stats := st, frame_store := rw,
            g_loop := lp\<rparr>))))"

definition game_turn :: "env \<Rightarrow> nat \<Rightarrow> game \<Rightarrow> game res" where
  "game_turn e player_count g =
     (if turn_nearest (command_preview player_count (game_record g) (g_loop g)) = 0 then
        let lp = (g_loop g)\<lparr>input_queue := c_min (input_queue (g_loop g) + 1) (input_queue_max (g_loop g))\<rparr>
        in rbind (loop_stall (e_readings e) lp) (\<lambda>lp'. Inr (g\<lparr>g_loop := lp'\<rparr>))
      else
        rbind (command_frame player_count (game_record g) (frame_buffer g)) (\<lambda>(fr, rws).
        case fr of
          None \<Rightarrow> Inl CrashCall
        | Some f \<Rightarrow>
            rbind (execute_commands e (fr_buffer f) (fr_command f)
                    (g\<lparr>game_record := rws, frame_buffer := fr_buffer f\<rparr>)) (\<lambda>g1.
            if simulation_goal g1 \<le> loop_frame (g_loop g1) then
              rbind (loop_pause (e_readings e) (g_loop g1)) (\<lambda>lp'. Inr (g1\<lparr>g_loop := lp'\<rparr>))
            else game_advance e g1)))"

definition game_step :: "env \<Rightarrow> nat \<Rightarrow> game \<Rightarrow> game res" where
  "game_step e player_count g =
     rbind (notify_poll (e_notify_poll e) (e_notify_read e) notify_callback (g_watch_buf g) g (g_watch g))
       (\<lambda>(_, wb, ga, wa).
     let g1 = ga\<lparr>g_watch_buf := wb, g_watch := wa\<rparr> in
     rbind (input_poll (e_stdin_poll e) (e_stdin_read e) (input_callback (e_alloc e) (e_clk e)) g1 (g_input g1))
       (\<lambda>(_, gb, ib).
     let g2 = gb\<lparr>g_input := ib\<rparr>; target = loop_write_frame (g_loop g2) in
     rbind (fill_input (Suc (unat (target - command_count (rw_write (input_rw g2))))) (e_alloc e) target (input_rw g2))
       (\<lambda>rw.
     rbind (connection_sync (e_conn_poll e) (e_conn_read e) (e_conn_write e) (e_alloc e) target rw
              (game_record g2) (g_conn g2)) (\<lambda>(net_status, rw', gr, c).
     let g3 = g2\<lparr>input_rw := rw', game_record := gr, g_conn := c\<rparr> in
     case net_status of
       CONN_CORRUPT \<Rightarrow> Inr (g3\<lparr>g_loop := loop_halt (g_loop g3), exiting := True\<rparr>)
     | CONN_TERM \<Rightarrow> Inr (g3\<lparr>g_loop := loop_halt (g_loop g3), exiting := True\<rparr>)
     | CONN_CHANGE \<Rightarrow> Inr (g3\<lparr>g_loop := loop_halt (g_loop g3)\<rparr>)
     | CONN_OK \<Rightarrow> game_turn e player_count g3))))"

fun game_loop :: "env list \<Rightarrow> nat \<Rightarrow> game \<Rightarrow> game res" where
  "game_loop [] player_count g = (if loop_run (g_loop g) then Inl Diverge else Inr g)"
| "game_loop (e # es) player_count g =
     (if loop_run (g_loop g) then rbind (game_step e player_count g) (game_loop es player_count)
      else Inr g)"

section \<open>A simulation\<close>

text \<open>What the world answers while a simulation is set up and torn down.\<close>

record boot =
  s_alloc :: allocator
  s_clocks :: "int list"
  s_tscs :: "u64 list"
  s_now :: u64
  s_clk :: int
  s_lock :: "u64 \<times> u64"
  s_watch_alloc :: "bool \<times> bool"
  s_inotify_init :: "nat \<Rightarrow> int"
  s_add_watch :: "int \<Rightarrow> byte list \<Rightarrow> u32 \<Rightarrow> int"
  s_sorter :: sorter
  s_fuel :: nat
  s_image :: image
  s_dlopen :: "byte list \<Rightarrow> u64 option"
  s_link_map :: "u64 \<Rightarrow> (byte list \<times> u64) list option"
  s_file :: bool

definition game_begin :: "boot \<Rightarrow> u8 \<Rightarrow> game \<Rightarrow> game res" where
  "game_begin s framerate g =
     (let m = execute_init (g_machine g) in
      rbind (stats_init_array doubles MAX_SYMBOLS (perf_stats g)) (\<lambda>st.
      rbind (record_alloc (s_alloc s)) (\<lambda>rc.
      rbind (loop_init framerate (s_clocks s) (s_tscs s) (s_now s) (s_clk s) (s_lock s)
               (g_loop g)) (\<lambda>(lp, _).
      rbind (loop_print_status (s_clk s) lp) (\<lambda>_.
      rbind (notify_init (fst (s_watch_alloc s)) (snd (s_watch_alloc s)) (s_inotify_init s) (s_add_watch s)
               IN_CLOSE_WRITE watch_dirs (g_watch g)) (\<lambda>(_, w).
      rbind (dlfn_open (s_sorter s) (s_fuel s) (s_image s) (s_dlopen s) (s_link_map s) (snd (dlfn_init dlpath (dlfn m))))
        (\<lambda>(_, d).
      Inr (g\<lparr>perf_stats := st, g_machine := m\<lparr>dlfn := d\<rparr>,
             frame_store := \<lparr>rw_rec = Some rc, rw_read = offset_zero, rw_write = offset_zero\<rparr>,
             g_loop := lp, g_watch := w, simulation_goal := 0,
             g_input := snd (input_init (g_input g))\<rparr>))))))))"

text \<open>The state left, the descriptors closed, the contents of \<open>frame_store.bin\<close>, and the blocks freed.\<close>

definition game_end ::
  "boot \<Rightarrow> game \<Rightarrow> (game \<times> int list \<times> byte list option \<times> freed list) res"
where
  "game_end s g =
     rbind (loop_print_status (s_clk s) (g_loop g)) (\<lambda>_.
     rbind (notify_shutdown (g_watch g)) (\<lambda>(closed, w).
     rbind (opt_res NullDeref (rw_rec (frame_store g))) (\<lambda>rc.
     rbind (record_to_disk (s_file s) rc) (\<lambda>file.
     Inr (g\<lparr>g_loop := loop_shutdown (g_loop g), g_watch := w,
            g_machine := (g_machine g)\<lparr>dlfn := dlfn_shutdown (dlfn (g_machine g))\<rparr>,
            g_input := snd (input_shutdown (g_input g)),
            frame_store := (frame_store g)\<lparr>rw_rec := None\<rparr>\<rparr>,
          closed, file, record_free (Some rc))))))"

definition game_simulation ::
  "boot \<Rightarrow> boot \<Rightarrow> env list \<Rightarrow> u8 \<Rightarrow> game \<Rightarrow> (game \<times> int list \<times> byte list option \<times> freed list) res"
where
  "game_simulation s s' es framerate g =
     (let player_count = game_players (game_record g) in
      rbind (game_begin s framerate g) (\<lambda>g1.
      rbind (game_loop es player_count g1) (game_end s')))"

section \<open>The program\<close>

text \<open>\<open>strtoul\<close> with base 0, clamped as the code needs it: the smaller of the value and 255.\<close>

definition strtoul :: "byte list \<Rightarrow> u64" where
  "strtoul s =
     (let (neg, t) = skip_sign (dropWhile isspace s);
          n = (if hex_prefix t \<and> takeWhile (is_digit 16) (drop 2 t) \<noteq> []
               then number 16 (takeWhile (is_digit 16) (drop 2 t))
               else if t \<noteq> [] \<and> hd t = 48 then number 8 (takeWhile (is_digit 8) t)
               else number 10 (takeWhile (is_digit 10) t))
      in if n \<ge> 2 ^ 64 then - 1 else if neg then - of_nat n else of_nat n)"

record options =
  multiplayer :: bool
  framerate :: u8
  yield :: bool

text \<open>The options as \<open>getopt\<close> returns them, each with its argument; \<open>None\<close> after an unknown one.\<close>

fun main_options :: "(byte \<times> byte list) list \<Rightarrow> options \<Rightarrow> options option" where
  "main_options [] opts = Some opts"
| "main_options ((opt, optarg) # rest) opts =
     (if opt = ch CHR ''y'' then main_options rest (opts\<lparr>yield := True\<rparr>)
      else if opt = ch CHR ''m'' then main_options rest (opts\<lparr>multiplayer := True\<rparr>)
      else if opt = ch CHR ''f'' then
        main_options rest (opts\<lparr>framerate := ucast (c_min (strtoul optarg) 255)\<rparr>)
      else if opt = ch CHR ''?'' then None
      else main_options rest opts)"

text \<open>The simulations one after the other, until one of them ends with \<open>exiting\<close>.\<close>

fun main_loop :: "(boot \<times> boot \<times> env list) list \<Rightarrow> u8 \<Rightarrow> game \<Rightarrow> game res" where
  "main_loop [] rate g = (if exiting g then Inr g else Inl Diverge)"
| "main_loop ((s, s', es) # runs) rate g =
     (if exiting g then Inr g
      else
        rbind (game_simulation s s' es rate g) (\<lambda>(g1, _).
        main_loop runs rate
          (g1\<lparr>game_record := map (\<lambda>rw. rw\<lparr>rw_read := offset_zero\<rparr>) (game_record g1)\<rparr>)))"

text \<open>What the world answers to \<open>connection_init\<close>.\<close>

record net_env =
  n_socketpair :: "(int \<times> int) option"
  n_getaddrinfo :: "byte list \<Rightarrow> byte list \<Rightarrow> addrinfo option"
  n_socket :: "addrinfo \<Rightarrow> int"
  n_connect :: "u32 option"
  n_polls :: "(int \<Rightarrow> u16 \<Rightarrow> poll_out) list"
  n_fds :: fd_table

text \<open>\<open>main\<close>, with the options as \<open>getopt\<close> returns them. The result is the exit code, and when the game
  ran the contents of \<open>frame_input.ascii\<close>, what was freed and the descriptors closed.\<close>

definition main ::
  "(byte \<times> byte list) list \<Rightarrow> allocator \<Rightarrow> bool \<Rightarrow> (boot \<times> boot \<times> env list) list \<Rightarrow>
   net_env \<Rightarrow> game \<Rightarrow>
   (int \<times> (byte list option \<times> freed list \<times> int list) option) res"
where
  "main args alc file runs net g =
     (case main_options args \<lparr>multiplayer = False, framerate = 10, yield = False\<rparr> of
        None \<Rightarrow> Inr (1, None)
      | Some opts \<Rightarrow>
          let host = (if multiplayer opts then Some (str ''gamehost.rufe.org'') else None);
              g0 = (if yield opts then g\<lparr>g_loop := loop_enable_yield (g_loop g)\<rparr> else g) in
          rbind (connection_init host (n_socketpair net) (n_getaddrinfo net) (n_socket net) (n_connect net)
                   (n_polls net) (n_fds net) None (g_conn g0)) (\<lambda>(r, _, thread, c).
          case r of
            None \<Rightarrow> Inl Diverge
          | Some ok \<Rightarrow>
              if ok = 0 then Inr (1, None)
              else
                rbind (record_alloc alc) (\<lambda>rc.
                rbind (main_loop runs (framerate opts)
                        (g0\<lparr>g_conn := c, input_rw := (input_rw g0)\<lparr>rw_rec := Some rc\<rparr>\<rparr>)) (\<lambda>g1.
                rbind (opt_res NullDeref (rw_rec (input_rw g1))) (\<lambda>inp.
                rbind (record_to_disk file inp) (\<lambda>ascii.
                let (closed, _, _) = connection_term thread (g_conn g1)
                in Inr (0, Some (ascii,
                     record_free (Some inp) @ concat (map (\<lambda>rw. record_free (rw_rec rw)) (game_record g1)),
                     closed))))))))"

end
