(* ===== verification/Game_Props.thy ===== *)
theory Game_Props
  imports Main_Loop
begin

text \<open>
  What the game promises: the frame handed to the interpreter is one command of every player, a turn
  waits for all of them, and the commands and functions of a frame execute without a fault.
\<close>

section \<open>The frame's buffer\<close>

text \<open>Where commands lie that are stored one after the other, from \<open>w\<close> on.\<close>

fun places :: "nat \<Rightarrow> byte list list \<Rightarrow> (nat \<times> nat) list" where
  "places w [] = []"
| "places w (m # ms) = (w, length m) # places (w + length m + 1) ms"

definition logs_at :: "rw_t list \<Rightarrow> (nat \<Rightarrow> byte list list) \<Rightarrow> (nat \<Rightarrow> nat) \<Rightarrow> nat \<Rightarrow> bool" where
  "logs_at rws L K n \<longleftrightarrow> n \<le> length rws \<and> (\<forall>p < n. rw_log (rws ! p) (L p) (K p))"

text \<open>The next command of each player.\<close>

definition next_commands :: "(nat \<Rightarrow> byte list list) \<Rightarrow> (nat \<Rightarrow> nat) \<Rightarrow> nat \<Rightarrow> byte list list" where
  "next_commands L K n = map (\<lambda>p. L p ! K p) [0..<n]"

lemma frame_write:
  assumes "length buf = FRAME_BUF_LEN" and "take w buf = pre" and "length pre = w"
    and "w + length m < FRAME_BUF_LEN"
  shows "\<exists>b1 b2. mem_write w m buf = Some b1 \<and> mem_write (w + length m) [0] b1 = Some b2 \<and>
    length b2 = FRAME_BUF_LEN \<and> take (w + length m + 1) b2 = pre @ m @ [0]"
proof -
  have split: "take (w + length m + 1) (take w buf @ m @ [0] @ drop (w + length m + 1) buf) = pre @ m @ [0]"
    using assms by simp
  let ?b1 = "take w buf @ m @ drop (w + length m) buf"
  have 1: "mem_write w m buf = Some ?b1" using assms by (simp add: mem_write_Some)
  have len: "length ?b1 = FRAME_BUF_LEN" using assms by simp
  have "mem_write (w + length m) [0] ?b1 =
      Some (take (w + length m) ?b1 @ [0] @ drop (w + length m + 1) ?b1)"
    using assms len by (simp add: mem_write_Some)
  moreover have "take (w + length m) ?b1 = take w buf @ m" using assms by simp
  moreover have "drop (w + length m + 1) ?b1 = drop (w + length m + 1) buf" using assms by simp
  ultimately have 2: "mem_write (w + length m) [0] ?b1 = Some (take w buf @ m @ [0] @ drop (w + length m + 1) buf)"
    by simp
  show ?thesis
    by (rule exI, rule exI, intro conjI, rule 1, rule 2) (use assms split in simp_all)
qed

lemma rw_fetch_unat:
  assumes "rw_log rw ms k" and "k < length ms"
  shows "\<exists>cmd rw'. rw_fetch rw = Inr (Some cmd, of_nat (length (ms ! k)), rw') \<and>
    mem_read 0 (length (ms ! k)) cmd = Some (ms ! k) \<and>
    unat (of_nat (length (ms ! k)) :: u64) = length (ms ! k) \<and> rw_log rw' ms (Suc k)"
proof -
  obtain cmd rw' rest where f: "rw_fetch rw = Inr (Some cmd, of_nat (length (ms ! k)), rw')"
    "cmd = ms ! k @ 0 # rest" "rw_log rw' ms (Suc k)"
    using rw_fetch_log [OF assms] by blast
  have "length (ms ! k) < length (encode 0 ms)" using assms(2) by (intro length_encode_le) simp
  moreover have "length (encode 0 ms) \<le> log_limit" using assms(1) by (auto simp: rw_log_def)
  ultimately have "length (ms ! k) < 2 ^ 64" by (simp add: log_limit_def)
  then have "unat (of_nat (length (ms ! k)) :: u64) = length (ms ! k)" by (rule unat_of_nat64)
  then show ?thesis using f by (simp add: mem_read_def)
qed

lemma frame_from_spec:
  assumes "\<forall>i \<in> set is. rw_log (rws ! i) (L i) (K i) \<and> K i < length (L i) \<and> i < length rws"
    and "distinct is" and "length buf = FRAME_BUF_LEN" and "take w buf = pre" and "length pre = w"
    and "ms = map (\<lambda>i. L i ! K i) is"
  shows "(w + length (encode 0 ms) \<le> FRAME_BUF_LEN \<longrightarrow>
      (\<exists>buf' rws'. frame_from is w \<lparr>fr_buffer = buf, fr_command = cs\<rparr> rws =
         Inr (Some \<lparr>fr_buffer = buf', fr_command = cs @ places w ms\<rparr>, rws') \<and>
       length buf' = FRAME_BUF_LEN \<and> take (w + length (encode 0 ms)) buf' = pre @ encode 0 ms \<and>
       length rws' = length rws \<and> (\<forall>i. i \<notin> set is \<longrightarrow> rws' ! i = rws ! i) \<and>
       (\<forall>i \<in> set is. rw_log (rws' ! i) (L i) (Suc (K i))))) \<and>
    (w + length (encode 0 ms) > FRAME_BUF_LEN \<and> w \<le> FRAME_BUF_LEN \<longrightarrow>
      (\<exists>rws'. frame_from is w \<lparr>fr_buffer = buf, fr_command = cs\<rparr> rws = Inr (None, rws')))"
  using assms
proof (induction "is" arbitrary: w buf pre cs rws ms)
  case Nil
  then show ?case by simp
next
  case (Cons i "is")
  let ?m = "L i ! K i" and ?ms = "map (\<lambda>i. L i ! K i) is"
  have i: "rw_log (rws ! i) (L i) (K i)" "K i < length (L i)" "i < length rws" "i \<notin> set is"
    using Cons.prems(1,2) by auto
  have ms: "length (encode 0 ms) = length ?m + 1 + length (encode 0 ?ms)" "ms = ?m # ?ms"
    using Cons.prems(6) by simp_all
  obtain cmd rw' where f: "rw_fetch (rws ! i) = Inr (Some cmd, of_nat (length ?m), rw')"
    "mem_read 0 (length ?m) cmd = Some ?m" "unat (of_nat (length ?m) :: u64) = length ?m"
    "rw_log rw' (L i) (Suc (K i))"
    using rw_fetch_unat [OF i(1,2)] by blast
  show ?case
  proof (cases "w + length ?m \<ge> FRAME_BUF_LEN")
    case True
    then have "frame_from (i # is) w \<lparr>fr_buffer = buf, fr_command = cs\<rparr> rws = Inr (None, rws[i := rw'])"
      using f(1,3) by simp
    then show ?thesis using True ms(1) by simp
  next
    case False
    obtain b1 b2 where b: "mem_write w ?m buf = Some b1" "mem_write (w + length ?m) [0] b1 = Some b2"
      "length b2 = FRAME_BUF_LEN" "take (w + length ?m + 1) b2 = pre @ ?m @ [0]"
      using frame_write [OF Cons.prems(3-5), of ?m] False by auto
    have step: "frame_from (i # is) w \<lparr>fr_buffer = buf, fr_command = cs\<rparr> rws =
        frame_from is (w + length ?m + 1) \<lparr>fr_buffer = b2, fr_command = cs @ [(w, length ?m)]\<rparr> (rws[i := rw'])"
      using f(1-3) b(1,2) False by (simp add: Let_def)
    have logs: "\<forall>j \<in> set is. rw_log (rws[i := rw'] ! j) (L j) (K j) \<and> K j < length (L j) \<and>
        j < length (rws[i := rw'])"
      using Cons.prems(1) i(4) by (auto simp: nth_list_update)
    have len: "length (pre @ ?m @ [0]) = w + length ?m + 1" using Cons.prems(5) by simp
    have "distinct is" using Cons.prems(2) by simp
    note IH = Cons.IH [OF logs this b(3,4) len refl, of "cs @ [(w, length ?m)]"]
    show ?thesis
    proof (cases "w + length (encode 0 ms) \<le> FRAME_BUF_LEN")
      case True
      then have "w + length ?m + 1 + length (encode 0 ?ms) \<le> FRAME_BUF_LEN" using ms(1) by simp
      then obtain buf' rws' where r: "frame_from is (w + length ?m + 1)
          \<lparr>fr_buffer = b2, fr_command = cs @ [(w, length ?m)]\<rparr> (rws[i := rw']) =
          Inr (Some \<lparr>fr_buffer = buf', fr_command = (cs @ [(w, length ?m)]) @ places (w + length ?m + 1) ?ms\<rparr>, rws')"
        "length buf' = FRAME_BUF_LEN"
        "take (w + length ?m + 1 + length (encode 0 ?ms)) buf' = (pre @ ?m @ [0]) @ encode 0 ?ms"
        "length rws' = length (rws[i := rw'])" "\<forall>j. j \<notin> set is \<longrightarrow> rws' ! j = rws[i := rw'] ! j"
        "\<forall>j \<in> set is. rw_log (rws' ! j) (L j) (Suc (K j))"
        using IH by blast
      have 1: "cs @ places w ms = (cs @ [(w, length ?m)]) @ places (w + length ?m + 1) ?ms"
        unfolding ms(2) by simp
      have 2: "take (w + length (encode 0 ms)) buf' = pre @ encode 0 ms"
        using r(3) ms by (simp add: add.assoc)
      have 3: "rws' ! i = rw'" using r(5) i(3,4) by simp
      have 4: "\<forall>j. j \<notin> set (i # is) \<longrightarrow> rws' ! j = rws ! j" using r(5) by simp
      have 5: "\<forall>j \<in> set (i # is). rw_log (rws' ! j) (L j) (Suc (K j))" using r(6) 3 f(4) by simp
      show ?thesis unfolding step 1 using True r(1,2,4) 2 4 5 by simp
    next
      case over: False
      then have "w + length ?m + 1 + length (encode 0 ?ms) > FRAME_BUF_LEN \<and> w + length ?m + 1 \<le> FRAME_BUF_LEN"
        using ms(1) False by simp
      then show ?thesis unfolding step using IH over by blast
    qed
  qed
qed

lemma command_frame_spec:
  assumes "logs_at rws L K n" and "\<forall>p < n. K p < length (L p)" and "length buf = FRAME_BUF_LEN"
    and "ms = next_commands L K n"
  shows "length (encode 0 ms) \<le> FRAME_BUF_LEN \<Longrightarrow>
      \<exists>buf' rws'. command_frame n rws buf = Inr (Some \<lparr>fr_buffer = buf', fr_command = places 0 ms\<rparr>, rws') \<and>
       length buf' = FRAME_BUF_LEN \<and> take (length (encode 0 ms)) buf' = encode 0 ms \<and>
       logs_at rws' L (\<lambda>p. Suc (K p)) n \<and> length rws' = length rws \<and> (\<forall>i \<ge> n. rws' ! i = rws ! i)"
    and "length (encode 0 ms) > FRAME_BUF_LEN \<Longrightarrow> \<exists>rws'. command_frame n rws buf = Inr (None, rws')"
proof -
  have "\<forall>i \<in> set [0..<n]. rw_log (rws ! i) (L i) (K i) \<and> K i < length (L i) \<and> i < length rws"
    using assms(1,2) by (simp add: logs_at_def)
  note spec = frame_from_spec [OF this _ assms(3) _ _ assms(4) [unfolded next_commands_def], of 0 "[]" "[]"]
  show "length (encode 0 ms) \<le> FRAME_BUF_LEN \<Longrightarrow>
      \<exists>buf' rws'. command_frame n rws buf = Inr (Some \<lparr>fr_buffer = buf', fr_command = places 0 ms\<rparr>, rws') \<and>
       length buf' = FRAME_BUF_LEN \<and> take (length (encode 0 ms)) buf' = encode 0 ms \<and>
       logs_at rws' L (\<lambda>p. Suc (K p)) n \<and> length rws' = length rws \<and> (\<forall>i \<ge> n. rws' ! i = rws ! i)"
    using spec assms(1) by (auto simp: command_frame_def logs_at_def)
  show "length (encode 0 ms) > FRAME_BUF_LEN \<Longrightarrow> \<exists>rws'. command_frame n rws buf = Inr (None, rws')"
    using spec by (simp add: command_frame_def)
qed

text \<open>What a place shows of a buffer that holds the commands.\<close>

lemma place_view:
  assumes "take (length pre + length (encode 0 ms)) buf = pre @ encode 0 ms"
  shows "\<forall>c \<in> set (zip (places (length pre) ms) ms).
    \<exists>rest. snd (fst c) = length (snd c) \<and> drop (fst (fst c)) buf = snd c @ 0 # rest"
  using assms
proof (induction ms arbitrary: pre)
  case (Cons m ms)
  have "buf = (pre @ encode 0 (m # ms)) @ drop (length pre + length (encode 0 (m # ms))) buf"
    using Cons.prems take_eq_split by blast
  then have "drop (length pre) buf = m @ 0 # encode 0 ms @ drop (length pre + length (encode 0 (m # ms))) buf"
    by (metis append.assoc append_Cons append_eq_conv_conj encode_simps(2))
  moreover have "take (length (pre @ m @ [0]) + length (encode 0 ms)) buf = (pre @ m @ [0]) @ encode 0 ms"
    using Cons.prems by (simp add: add.assoc)
  note Cons.IH [OF this]
  ultimately show ?case by simp
qed simp

lemma length_places [simp]: "length (places w ms) = length ms"
  by (induction ms arbitrary: w) auto

section \<open>The commands of a frame\<close>

lemma bench_calls_wf:
  "machine_wf m \<Longrightarrow> i < dlfn_used_function (dlfn m) \<Longrightarrow>
   \<exists>sm' st' t' m'. bench_calls lib rd i n sm st t m = Inr (sm', st', t', m') \<and> machine_wf m' \<and> same_tables m m'"
proof (induction n arbitrary: sm st t m)
  case (Suc n)
  obtain r mem' where c: "functor_invoke (call_func lib) (fnctor (dlfn_function (dlfn m) ! i)) m = Inr (r, m\<lparr>memory := mem'\<rparr>)"
    "machine_wf (m\<lparr>memory := mem'\<rparr>)" "same_tables m (m\<lparr>memory := mem'\<rparr>)"
    using invoke_function_wf [OF Suc.prems] by blast
  let ?d = "to_double (rd (t + 1) - rd t)"
  have "i < dlfn_used_function (dlfn (m\<lparr>memory := mem'\<rparr>))" using Suc.prems(2) by simp
  from Suc.IH [OF c(2) this, of "d_add sm ?d" "stats_add doubles ?d st" "t + 2"] obtain sm' st' t' m' where
    "bench_calls lib rd i n (d_add sm ?d) (stats_add doubles ?d st) (t + 2) (m\<lparr>memory := mem'\<rparr>) =
      Inr (sm', st', t', m')" "machine_wf m'" "same_tables (m\<lparr>memory := mem'\<rparr>) m'" by blast
  then show ?case using c(1) same_tables_trans [OF c(3)] by (simp add: Let_def)
qed simp

lemma bench_functions_wf:
  "machine_wf m \<Longrightarrow> \<forall>i \<in> set is. i < dlfn_used_function (dlfn m) \<Longrightarrow>
   \<exists>ag' ps' t' m'. bench_functions lib rd n is ag ps t m = Inr (ag', ps', t', m') \<and> machine_wf m' \<and> same_tables m m'"
proof (induction "is" arbitrary: ag ps t m)
  case (Cons i "is")
  obtain sm' st' t' m' where c: "bench_calls lib rd i n 0 (ps ! i) t m = Inr (sm', st', t', m')"
    "machine_wf m'" "same_tables m m'"
    using bench_calls_wf Cons.prems by (metis list.set_intros(1))
  have "\<forall>i \<in> set is. i < dlfn_used_function (dlfn m')"
    using Cons.prems(2) c(3) by (simp add: same_tables_def)
  from Cons.IH [OF c(2) this, of "stats_add doubles sm' ag" "ps[i := st']" t'] obtain ag' ps' t'' m'' where
    "bench_functions lib rd n is (stats_add doubles sm' ag) (ps[i := st']) t' m' = Inr (ag', ps', t'', m'')"
    "machine_wf m''" "same_tables m' m''" by blast
  then show ?case using c(1) same_tables_trans [OF c(3)] by simp
qed simp

lemma bench_loop_wf:
  "machine_wf m \<Longrightarrow>
   (\<exists>rows t' m'. bench_loop lib rd h c ag t m = Inr (rows, t', m') \<and> machine_wf m' \<and> same_tables m m') \<or>
   bench_loop lib rd h c ag t m = Inl SignedOverflow"
proof (induction h arbitrary: c ag t m)
  case (Suc h)
  obtain ag' ps' t' m' where b: "bench_functions lib rd c [0..<dlfn_used_function (dlfn m)] ag
      (replicate MAX_SYMBOLS (stats_init doubles)) t m = Inr (ag', ps', t', m')" "machine_wf m'" "same_tables m m'"
    using bench_functions_wf [OF Suc.prems, of "[0..<dlfn_used_function (dlfn m)]" lib rd c ag
        "replicate MAX_SYMBOLS (stats_init doubles)" t] by auto
  from Suc.IH [OF b(2), of "c * 10" ag' t'] b show ?case
    by (auto intro: same_tables_trans)
qed simp

text \<open>What a command can change.\<close>

definition only_machine :: "game \<Rightarrow> game \<Rightarrow> bool" where
  "only_machine g g' \<longleftrightarrow>
     g' = g\<lparr>g_machine := g_machine g', simulation_goal := simulation_goal g', tsc_count := tsc_count g'\<rparr>"

lemma only_machine_same:
  "only_machine g g' \<Longrightarrow> game_record g' = game_record g \<and> g_loop g' = g_loop g \<and> input_rw g' = input_rw g \<and>
   frame_store g' = frame_store g \<and> exiting g' = exiting g \<and> perf g' = perf g"
  unfolding only_machine_def by (metis (no_types, lifting) game.select_convs game.surjective game.update_convs)

lemma only_machine_refl [simp]: "only_machine g g"
  by (simp add: only_machine_def)

lemma only_machine_update [simp]: "only_machine g (g\<lparr>g_machine := m\<rparr>)"
  "only_machine g (g\<lparr>simulation_goal := k\<rparr>)" "only_machine g (g\<lparr>tsc_count := t, g_machine := m\<rparr>)"
  by (simp_all add: only_machine_def)

lemma only_machine_trans: "only_machine a b \<Longrightarrow> only_machine b c \<Longrightarrow> only_machine a c"
  unfolding only_machine_def by (cases a; cases b; cases c) simp

definition command_room :: "machine \<Rightarrow> nat" where
  "command_room m = PARAM_COUNT * dlfn_used_function (dlfn m) + 1"

lemma first_char_app [simp]: "nul_free s \<Longrightarrow> first_char (s @ 0 # r) = first_char s"
  by (cases s) (simp_all add: first_char_def)

lemma execute_any_cases:
  assumes "machine_wf (g_machine g)" and "nul_free s" and "is_bits (e_junk e 0)"
    and "used_result_func (g_machine g) + command_room (g_machine g) \<le> MAX_FUNC"
  shows "(\<exists>g'. execute_any e (length s) (s @ 0 # r) g = Inr g' \<and> only_machine g g' \<and>
      keeps (command_room (g_machine g)) (g_machine g) (g_machine g')) \<or>
    execute_any e (length s) (s @ 0 # r) g = Inl SignedOverflow \<and> first_char s = ch CHR ''b'' \<or>
    execute_any e (length s) (s @ 0 # r) g = Inl NullDeref \<and> first_char s = ch CHR ''o''"
    (is "?ok \<or> ?bench \<or> ?obj")
proof -
  let ?m = "g_machine g" and ?c = "first_char s"
  have letters: "ch CHR ''b'' = 98" "ch CHR ''c'' = 99" "ch CHR ''h'' = 104" "ch CHR ''m'' = 109"
    "ch CHR ''o'' = 111" "ch CHR ''p'' = 112" "ch CHR ''r'' = 114" "ch CHR ''s'' = 115" "ch CHR ''v'' = 118"
    by (simp_all add: ch_def)
  note [simp] = execute_any_def on_machine_def letters first_char_app [OF assms(2)]
  have refl: "keeps (command_room ?m) ?m ?m" by (rule keeps_refl [OF assms(1)])
  have up: "keeps k ?m m' \<Longrightarrow> k \<le> command_room ?m \<Longrightarrow> keeps (command_room ?m) ?m m'" for k m'
    by (rule keeps_mono)
  have upd: "on_machine g (Inr m') = Inr (g\<lparr>g_machine := m'\<rparr>)" for m' by simp
  consider "?c = 98" | "?c = 99" | "?c = 104" | "?c = 109" | "?c = 111" | "?c = 112" | "?c = 114" | "?c = 115"
    | "?c = 118" | "?c \<notin> {98, 99, 104, 109, 111, 112, 114, 115, 118}" by blast
  then show ?thesis
  proof cases
    case 1
    from bench_loop_wf [OF assms(1), of "e_lib e" "e_tsc e" 10 1 "stats_init doubles" "tsc_count g"]
    show ?thesis
    proof
      assume "\<exists>rows t' m'. bench_loop (e_lib e) (e_tsc e) 10 1 (stats_init doubles) (tsc_count g) ?m =
        Inr (rows, t', m') \<and> machine_wf m' \<and> same_tables ?m m'"
      then obtain rows t' m' where "execute_benchmark (e_lib e) (e_tsc e) (tsc_count g) ?m = Inr (rows, t', m')"
        "keeps (command_room ?m) ?m m'" using keeps_same by (auto simp: execute_benchmark_def)
      then have ?ok using 1 by (intro exI [of _ "g\<lparr>tsc_count := t', g_machine := m'\<rparr>"]) simp
      then show ?thesis ..
    next
      assume "bench_loop (e_lib e) (e_tsc e) 10 1 (stats_init doubles) (tsc_count g) ?m = Inl SignedOverflow"
      then show ?thesis using 1 by (simp add: execute_benchmark_def)
    qed
  next
    case 2
    obtain x where "execute_condition (e_junk e 0) (length s) (s @ 0 # r) ?m = Inr x"
      using execute_condition_total [OF assms(1-3)] by blast
    then have ?ok using 2 refl by simp
    then show ?thesis ..
  next
    case 3
    obtain m' where "execute_hash ?m = Inr m'" "keeps 0 ?m m'" using execute_hash_keeps [OF assms(1)] by blast
    then have ?ok using 3 up by simp
    then show ?thesis ..
  next
    case 4
    obtain m' where "execute_mutation (length s) (s @ 0 # r) ?m = Inr m'" "keeps 0 ?m m'"
      using execute_mutation_keeps [OF assms(1,2)] by blast
    then have ?ok using 4 up by simp
    then show ?thesis ..
  next
    case 5
    obtain ts where ts: "tokens (length s) (s @ 0 # r) 2 = Inr ts"
      using token_list [OF assms(2), where n = 1 and r = r] by (auto simp: numeral_2_eq_2)
    show ?thesis
    proof (cases "length ts < 2 \<or> dlfn_get_object (ts ! 1) (dlfn ?m) \<noteq> None")
      case True
      then have ?ok using 5 ts refl by (auto simp: execute_object_def)
      then show ?thesis ..
    next
      case False
      then show ?thesis using 5 ts by (simp add: execute_object_def)
    qed
  next
    case 6
    obtain m' where "execute_parameter (length s) (s @ 0 # r) ?m = Inr m'"
      "keeps (PARAM_COUNT * dlfn_used_function (dlfn ?m)) ?m m'"
      using execute_parameter_keeps [OF assms(1,2)] assms(4) by (auto simp: command_room_def)
    then have ?ok using 6 up by (simp add: command_room_def)
    then show ?thesis ..
  next
    case 7
    obtain m' where "execute_result (length s) (s @ 0 # r) ?m = Inr m'" "keeps 1 ?m m'"
      using execute_result_keeps [OF assms(1,2)] assms(4) by (auto simp: command_room_def)
    then have ?ok using 7 up by (simp add: command_room_def)
    then show ?thesis ..
  next
    case 8
    obtain ts where "tokens (length s) (s @ 0 # r) 2 = Inr ts"
      using token_list [OF assms(2), where n = 1 and r = r] by (auto simp: numeral_2_eq_2)
    then have ?ok using 8 refl by (simp add: execute_simulation_def)
    then show ?thesis ..
  next
    case 9
    obtain m' where "execute_variable (length s) (s @ 0 # r) ?m = Inr m'" "keeps 0 ?m m'"
      using execute_variable_keeps [OF assms(1,2)] by blast
    then have ?ok using 9 up by simp
    then show ?thesis ..
  next
    case 10
    then have ?ok using refl by simp
    then show ?thesis ..
  qed
qed

section \<open>The functions of a frame\<close>

lemma run_function_wf:
  assumes "machine_wf m" and "handles_ok m" and "i < dlfn_used_function (dlfn m)"
  shows "\<exists>m'. machine_wf m' \<and> same_tables m m' \<and>
    (\<forall>rd t. run_function lib rd t i m = Inr (to_double (rd (t + 1) - rd t), m'))"
proof -
  have i: "i < MAX_SYMBOLS" using assms(1,3) by (simp add: machine_wf_def functions_wf_def dlfn_wf_def)
  obtain m1 where m1: "call_load_param lib i m = Inr m1" "machine_wf m1" "same_tables m m1"
    using call_load_param_wf [OF assms(1,2) i] by blast
  have i1: "i < dlfn_used_function (dlfn m1)" using assms(3) m1(3) by (simp add: same_tables_def)
  obtain a r mem' where m2: "functor_invoke (call_func lib) (fnctor (dlfn_function (dlfn m1) ! i)) m1 =
      Inr (r, m1\<lparr>memory := mem'\<rparr>)" "machine_wf (m1\<lparr>memory := mem'\<rparr>)"
    using invoke_function_wf [OF m1(2) i1] by blast
  let ?m2 = "m1\<lparr>memory := mem'\<rparr>\<lparr>result := (result (m1\<lparr>memory := mem'\<rparr>))[i := r]\<rparr>"
  have wf: "machine_wf ?m2" using m2(2) by (simp add: machine_wf_def)
  have same: "same_tables m1 ?m2" by (simp add: same_tables_def)
  then have "handles_ok ?m2" using assms(2) m1(3) same_tables_handles by blast
  then obtain m3 where m3: "call_store_result lib i ?m2 = Inr m3" "machine_wf m3" "same_tables ?m2 m3"
    using call_store_result_wf [OF wf _ i] by blast
  have "run_function lib rd t i m = Inr (to_double (rd (t + 1) - rd t), m3)" for rd t
    using m1(1) m2(1) m3(1) by (simp add: run_function_def)
  moreover have "same_tables m m3" using m1(3) same m3(3) same_tables_trans by blast
  ultimately show ?thesis using m3(2) by blast
qed

lemma run_functions_wf:
  assumes "machine_wf m" and "handles_ok m" and "\<forall>i \<in> set is. i < dlfn_used_function (dlfn m)"
  shows "\<exists>m'. machine_wf m' \<and> same_tables m m' \<and>
    (\<forall>rd t pf. \<exists>pf'. run_functions lib rd is pf t m = Inr (pf', t + 2 * length is, m'))"
  using assms
proof (induction "is" arbitrary: m)
  case (Cons i "is")
  obtain m1 where m1: "machine_wf m1" "same_tables m m1"
    "\<forall>rd t. run_function lib rd t i m = Inr (to_double (rd (t + 1) - rd t), m1)"
    using run_function_wf [OF Cons.prems(1,2), of i lib] Cons.prems(3) by auto
  have "handles_ok m1" using Cons.prems(2) m1(2) same_tables_handles by blast
  moreover have "\<forall>i \<in> set is. i < dlfn_used_function (dlfn m1)"
    using Cons.prems(3) m1(2) by (simp add: same_tables_def)
  ultimately obtain m' where m': "machine_wf m'" "same_tables m1 m'"
    "\<forall>rd t pf. \<exists>pf'. run_functions lib rd is pf t m1 = Inr (pf', t + 2 * length is, m')"
    using Cons.IH [OF m1(1)] by blast
  have "\<exists>pf'. run_functions lib rd (i # is) pf t m = Inr (pf', t + 2 * length (i # is), m')" for rd t pf
    using m1(3) m'(3) [rule_format, of rd "pf[i := to_double (rd (t + 1) - rd t)]" "t + 2"]
    by auto
  then show ?case using m'(1) same_tables_trans [OF m1(2) m'(2)] by blast
qed auto

text \<open>Two worlds give the same results to the variables when their stacks hold the same, or when nothing
  uninitialised is read.\<close>

definition same_junk :: "env \<Rightarrow> env \<Rightarrow> globals_t \<Rightarrow> bool" where
  "same_junk e e' g \<longleftrightarrow> e_junk e' = e_junk e \<or> junk_free [0..<global_used g] g"

lemma same_junk_ops:
  "same_junk e e' g \<Longrightarrow> globals_wf g \<Longrightarrow> global_var_ops (e_junk e') g = global_var_ops (e_junk e) g"
  using junk_free_any [of g "[0..<global_used g]" "e_junk e"] junk_free_any [of g "[0..<global_used g]" "e_junk e'"]
  by (auto simp: same_junk_def global_var_ops_def)

lemma simulate_wf:
  assumes "machine_wf (g_machine g)" and "handles_ok (g_machine g)" and "\<And>i. is_bits (e_junk e i)"
  shows "\<exists>m'. machine_wf m' \<and> handles_ok m' \<and>
    (\<forall>e' g'. g_machine g' = g_machine g \<longrightarrow> same_junk e e' (globals (g_machine g)) \<longrightarrow> e_lib e' = e_lib e \<longrightarrow>
      (\<exists>pf t. simulate e' g' = Inr (pf, t, m')))"
proof -
  let ?m = "g_machine g"
  obtain gl where gl: "global_var_ops (e_junk e) (globals ?m) = Inr gl" "globals_wf gl"
    using global_var_ops_from_wf [where junk = "e_junk e", OF _ _ assms(3), of "globals ?m" "[0..<global_used (globals ?m)]"]
      assms(1) unfolding global_var_ops_def machine_wf_def by auto
  let ?m1 = "?m\<lparr>globals := gl\<rparr>"
  have wf: "machine_wf ?m1" using assms(1) gl(2) by (simp add: machine_wf_def)
  have ok: "handles_ok ?m1" using assms(2) by (simp add: handles_ok_def)
  obtain m' where m': "machine_wf m'" "same_tables ?m1 m'"
    "\<forall>rd t pf. \<exists>pf'. run_functions (e_lib e) rd [0..<dlfn_used_function (dlfn ?m1)] pf t ?m1 =
      Inr (pf', t + 2 * length [0..<dlfn_used_function (dlfn ?m1)], m')"
    using run_functions_wf [OF wf ok, of "[0..<dlfn_used_function (dlfn ?m1)]" "e_lib e"] by auto
  have "\<exists>pf t. simulate e' g' = Inr (pf, t, m')"
    if "g_machine g' = ?m" "same_junk e e' (globals ?m)" "e_lib e' = e_lib e" for e' g'
  proof -
    have "global_var_ops (e_junk e') (globals ?m) = Inr gl"
      using same_junk_ops [OF that(2)] gl(1) assms(1) by (simp add: machine_wf_def)
    then show ?thesis
      using m'(3) [rule_format, of "e_tsc e'" "perf g'" "tsc_count g'"] that(1,3)
      by (auto simp: simulate_def Let_def)
  qed
  then show ?thesis using m'(1,2) ok same_tables_handles by blast
qed

section \<open>Replicas\<close>

text \<open>Commands that do the same everywhere: all but the benchmark, which calls the functions as often as
  its clock wants.\<close>

definition replicated :: "byte list \<Rightarrow> bool" where
  "replicated s \<longleftrightarrow> nul_free s \<and> first_char s \<noteq> ch CHR ''b''"

definition object_command :: "byte list \<Rightarrow> bool" where
  "object_command s \<longleftrightarrow> first_char s = ch CHR ''o''"

lemma tokens_rest: "nul_free s \<Longrightarrow> tokens (length s) (s @ 0 # r) (Suc n) = tokens (length s) (s @ 0 # r') (Suc n)"
  by (simp add: tokens_split)

lemma execute_rest:
  assumes "nul_free s"
  shows "execute_mutation (length s) (s @ 0 # r) m = execute_mutation (length s) (s @ 0 # r') m"
    and "execute_parameter (length s) (s @ 0 # r) m = execute_parameter (length s) (s @ 0 # r') m"
    and "execute_result (length s) (s @ 0 # r) m = execute_result (length s) (s @ 0 # r') m"
    and "execute_variable (length s) (s @ 0 # r) m = execute_variable (length s) (s @ 0 # r') m"
    and "execute_object (length s) (s @ 0 # r) m = execute_object (length s) (s @ 0 # r') m"
    and "execute_simulation (length s) (s @ 0 # r) = execute_simulation (length s) (s @ 0 # r')"
proof -
  have tok: "tokens (length s) (s @ 0 # r) k = tokens (length s) (s @ 0 # r') k" if "k \<in> {2, 3, 4, 6}" for k
  proof (cases "k = 2")
    case True
    then show ?thesis using tokens_rest [OF assms, of r 1 r'] by (simp only: Suc_1)
  qed (use tokens_rest [OF assms, of r "k - 1" r'] that in auto)
  show "execute_mutation (length s) (s @ 0 # r) m = execute_mutation (length s) (s @ 0 # r') m"
    and "execute_parameter (length s) (s @ 0 # r) m = execute_parameter (length s) (s @ 0 # r') m"
    and "execute_result (length s) (s @ 0 # r) m = execute_result (length s) (s @ 0 # r') m"
    and "execute_variable (length s) (s @ 0 # r) m = execute_variable (length s) (s @ 0 # r') m"
    and "execute_object (length s) (s @ 0 # r) m = execute_object (length s) (s @ 0 # r') m"
    and "execute_simulation (length s) (s @ 0 # r) = execute_simulation (length s) (s @ 0 # r')"
    by (simp_all add: execute_mutation_def execute_parameter_def execute_result_def execute_variable_def
        execute_object_def execute_simulation_def tok)
qed

text \<open>What two replicas make of the same commands: the same fault, after an object command for an unknown
  object, or the same machine and goal, with room left in the table of copies.\<close>

definition same_outcome :: "byte list list \<Rightarrow> nat \<Rightarrow> game \<Rightarrow> game \<Rightarrow> game res \<Rightarrow> game res \<Rightarrow> bool" where
  "same_outcome ms k g h x y \<longleftrightarrow>
     (case (x, y) of
        (Inr g', Inr h') \<Rightarrow>
          g_machine h' = g_machine g' \<and> simulation_goal h' = simulation_goal g' \<and>
          only_machine g g' \<and> only_machine h h' \<and> keeps k (g_machine g) (g_machine g')
      | (Inl a, Inl b) \<Rightarrow> a = NullDeref \<and> b = NullDeref \<and> (\<exists>m \<in> set ms. object_command m)
      | _ \<Rightarrow> False)"

lemma execute_any_replica:
  assumes "replicated s" and "machine_wf (g_machine g)"
    and "g_machine h = g_machine g" and "simulation_goal h = simulation_goal g"
    and "is_bits (e_junk e 0)" and "is_bits (e_junk e' 0)"
    and "used_result_func (g_machine g) + command_room (g_machine g) \<le> MAX_FUNC"
  shows "same_outcome [s] (command_room (g_machine g)) g h
    (execute_any e (length s) (s @ 0 # r) g) (execute_any e' (length s) (s @ 0 # r') h)"
proof -
  have s: "nul_free s" "first_char s \<noteq> ch CHR ''b''" using assms(1) by (simp_all add: replicated_def)
  have wf': "machine_wf (g_machine h)"
    and room': "used_result_func (g_machine h) + command_room (g_machine h) \<le> MAX_FUNC"
    using assms(2,3,7) by simp_all
  note g = execute_any_cases [where e = e and r = r, OF assms(2) s(1) assms(5,7)]
    and h = execute_any_cases [where e = e' and r = r', OF wf' s(1) assms(6) room']
  note letters = ch_def first_char_app [OF s(1)]
    and rest = execute_rest [OF s(1), where r = r and r' = r']
  show ?thesis
  proof (cases "first_char s = ch CHR ''o''")
    case True
    have "execute_any e (length s) (s @ 0 # r) g = rbind (execute_object (length s) (s @ 0 # r) (g_machine g)) (\<lambda>_. Inr g)"
      "execute_any e' (length s) (s @ 0 # r') h = rbind (execute_object (length s) (s @ 0 # r) (g_machine g)) (\<lambda>_. Inr h)"
      using True assms(3) rest(5)
      by (simp_all add: execute_any_def letters Let_def)
    then show ?thesis
      using g True assms(3,4) keeps_refl [OF assms(2)]
      by (cases "execute_object (length s) (s @ 0 # r) (g_machine g)")
        (auto simp: same_outcome_def object_command_def ch_def)
  next
    case False
    obtain g1 where g1: "execute_any e (length s) (s @ 0 # r) g = Inr g1" "only_machine g g1"
      "keeps (command_room (g_machine g)) (g_machine g) (g_machine g1)"
      using g s(2) False by blast
    obtain h1 where h1: "execute_any e' (length s) (s @ 0 # r') h = Inr h1" "only_machine h h1"
      using h s(2) False by blast
    have "g_machine h1 = g_machine g1 \<and> simulation_goal h1 = simulation_goal g1"
      using g1(1) h1(1) assms(3,4) s rest
      by (auto simp: execute_any_def Let_def on_machine_def rbind_eq_Inr split: if_splits)
    then show ?thesis using g1 h1 by (simp add: same_outcome_def)
  qed
qed

lemma execute_commands_replica:
  assumes "\<forall>m \<in> set ms. replicated m" and "machine_wf (g_machine g)"
    and "g_machine h = g_machine g" and "simulation_goal h = simulation_goal g"
    and "is_bits (e_junk e 0)" and "is_bits (e_junk e' 0)"
    and "used_result_func (g_machine g) + length ms * command_room (g_machine g) \<le> MAX_FUNC"
    and "take (length pre + length (encode 0 ms)) buf = pre @ encode 0 ms"
    and "take (length pre + length (encode 0 ms)) buf' = pre @ encode 0 ms"
  shows "same_outcome ms (length ms * command_room (g_machine g)) g h
    (execute_commands e buf (places (length pre) ms) g) (execute_commands e' buf' (places (length pre) ms) h)"
  using assms
proof (induction ms arbitrary: g h pre)
  case Nil
  then show ?case by (simp add: same_outcome_def keeps_refl)
next
  case (Cons m ms)
  obtain r r' where view: "drop (length pre) buf = m @ 0 # r" "drop (length pre) buf' = m @ 0 # r'"
    using place_view [OF Cons.prems(8)] place_view [OF Cons.prems(9)] by auto
  let ?pre = "pre @ m @ [0]" and ?k = "command_room (g_machine g)"
  let ?x = "execute_any e (length m) (m @ 0 # r) g" and ?y = "execute_any e' (length m) (m @ 0 # r') h"
  have "replicated m" "used_result_func (g_machine g) + ?k \<le> MAX_FUNC" using Cons.prems(1,7) by simp_all
  from execute_any_replica [OF this(1) Cons.prems(2-6) this(2), of r r']
  have first: "same_outcome [m] ?k g h ?x ?y" .
  have run: "execute_commands e buf (places (length pre) (m # ms)) g = rbind ?x (execute_commands e buf (places (length ?pre) ms))"
    "execute_commands e' buf' (places (length pre) (m # ms)) h = rbind ?y (execute_commands e' buf' (places (length ?pre) ms))"
    using view by simp_all
  show ?case
  proof (cases ?x)
    case (Inl f)
    then show ?thesis using first run by (cases ?y) (simp_all add: same_outcome_def)
  next
    case (Inr g2)
    then obtain h2 where 2: "?y = Inr h2" "g_machine h2 = g_machine g2" "simulation_goal h2 = simulation_goal g2"
      "only_machine g g2" "only_machine h h2" "keeps ?k (g_machine g) (g_machine g2)"
      using first by (cases ?y) (simp_all add: same_outcome_def)
    have k2: "command_room (g_machine g2) = ?k" using 2(6) by (simp add: keeps_def command_room_def)
    have "used_result_func (g_machine g2) + length ms * command_room (g_machine g2) \<le> MAX_FUNC"
      using 2(6) Cons.prems(7) unfolding k2 by (simp add: keeps_def)
    moreover have "take (length ?pre + length (encode 0 ms)) buf = ?pre @ encode 0 ms"
      "take (length ?pre + length (encode 0 ms)) buf' = ?pre @ encode 0 ms"
      using Cons.prems(8,9) by (simp_all add: add.assoc)
    moreover have "\<forall>m \<in> set ms. replicated m" using Cons.prems(1) by simp
    ultimately have rest: "same_outcome ms (length ms * ?k) g2 h2 (execute_commands e buf (places (length ?pre) ms) g2)
        (execute_commands e' buf' (places (length ?pre) ms) h2)"
      using Cons.IH [of g2 h2 ?pre] keepsD [OF 2(6)] 2(2,3) Cons.prems(5,6) k2 by simp
    then show ?thesis
      unfolding run using Inr 2 only_machine_trans keeps_trans
      by (fastforce simp: same_outcome_def split: sum.splits)
  qed
qed

text \<open>C1: Replicas stay equal. Two clients in the same well-formed state of the machine, with the same
  loaded code, hold the same players' logs. If every player's next command is there, they fit the
  frame buffer and the table of copies has room for them, both read the same frame, exactly one
  command of each player, whatever their clocks, buffers and own input. If no command is a benchmark,
  which calls the functions as often as the local clock wants, executing the frame has the same
  outcome for both. Either both fault with a null pointer, which only an object command can do; or
  both reach the same machine and the same goal. Then a step of the simulation does not fault and
  leaves both with the same well-formed machine, provided that the variables do not read the
  uninitialised local or that the stacks hold the same there.\<close>

theorem replicas_agree:
  assumes "machine_wf (g_machine g)" and "handles_ok (g_machine g)"
    and "g_machine h = g_machine g" and "simulation_goal h = simulation_goal g"
    and "logs_at (game_record g) L K n" and "logs_at (game_record h) L K n"
    and "\<forall>p < n. K p < length (L p) \<and> replicated (L p ! K p)"
    and "length (encode 0 (next_commands L K n)) \<le> FRAME_BUF_LEN"
    and "length (frame_buffer g) = FRAME_BUF_LEN" and "length (frame_buffer h) = FRAME_BUF_LEN"
    and "used_result_func (g_machine g) + n * command_room (g_machine g) \<le> MAX_FUNC"
    and "\<And>i. is_bits (e_junk e i)" and "\<And>i. is_bits (e_junk e' i)" and "e_lib e' = e_lib e"
  shows "\<exists>f rws f' rws'.
    command_frame n (game_record g) (frame_buffer g) = Inr (Some f, rws) \<and>
    command_frame n (game_record h) (frame_buffer h) = Inr (Some f', rws') \<and>
    fr_command f' = fr_command f \<and>
    logs_at rws L (\<lambda>p. Suc (K p)) n \<and> logs_at rws' L (\<lambda>p. Suc (K p)) n \<and>
    (case (execute_commands e (fr_buffer f) (fr_command f) (g\<lparr>game_record := rws, frame_buffer := fr_buffer f\<rparr>),
           execute_commands e' (fr_buffer f') (fr_command f') (h\<lparr>game_record := rws', frame_buffer := fr_buffer f'\<rparr>)) of
       (Inl a, Inl b) \<Rightarrow> a = NullDeref \<and> b = NullDeref \<and> (\<exists>p < n. object_command (L p ! K p))
     | (Inr g1, Inr h1) \<Rightarrow>
         game_record g1 = rws \<and> game_record h1 = rws' \<and>
         simulation_goal h1 = simulation_goal g1 \<and> g_machine h1 = g_machine g1 \<and>
         (\<exists>pf t m. simulate e g1 = Inr (pf, t, m) \<and> machine_wf m \<and> handles_ok m \<and>
            (same_junk e e' (globals (g_machine g1)) \<longrightarrow> (\<exists>pf' t'. simulate e' h1 = Inr (pf', t', m))))
     | _ \<Rightarrow> False)"
proof -
  let ?ms = "next_commands L K n"
  have ready: "\<forall>p < n. K p < length (L p)" using assms(7) by blast
  have plain: "\<forall>m \<in> set ?ms. replicated m" using assms(7) by (auto simp: next_commands_def)
  obtain b rws where g1: "command_frame n (game_record g) (frame_buffer g) =
      Inr (Some \<lparr>fr_buffer = b, fr_command = places 0 ?ms\<rparr>, rws)"
    "take (length (encode 0 ?ms)) b = encode 0 ?ms" "logs_at rws L (\<lambda>p. Suc (K p)) n"
    using command_frame_spec(1) [OF assms(5) ready assms(9) refl assms(8)] by blast
  obtain b' rws' where h1: "command_frame n (game_record h) (frame_buffer h) =
      Inr (Some \<lparr>fr_buffer = b', fr_command = places 0 ?ms\<rparr>, rws')"
    "take (length (encode 0 ?ms)) b' = encode 0 ?ms" "logs_at rws' L (\<lambda>p. Suc (K p)) n"
    using command_frame_spec(1) [OF assms(6) ready assms(10) refl assms(8)] by blast
  let ?g = "g\<lparr>game_record := rws, frame_buffer := b\<rparr>" and ?h = "h\<lparr>game_record := rws', frame_buffer := b'\<rparr>"
  let ?x = "execute_commands e b (places 0 ?ms) ?g" and ?y = "execute_commands e' b' (places 0 ?ms) ?h"
  have "length ?ms = n" by (simp add: next_commands_def)
  then have same: "same_outcome ?ms (n * command_room (g_machine g)) ?g ?h ?x ?y"
    using execute_commands_replica [where pre = "[]" and e = e and e' = e' and g = ?g and h = ?h and buf = b and buf' = b',
        OF plain] assms(1,3,4,11-13) g1(2) h1(2) by simp
  have "case (?x, ?y) of
       (Inl a, Inl b) \<Rightarrow> a = NullDeref \<and> b = NullDeref \<and> (\<exists>p < n. object_command (L p ! K p))
     | (Inr g1, Inr h1) \<Rightarrow>
         game_record g1 = rws \<and> game_record h1 = rws' \<and>
         simulation_goal h1 = simulation_goal g1 \<and> g_machine h1 = g_machine g1 \<and>
         (\<exists>pf t m. simulate e g1 = Inr (pf, t, m) \<and> machine_wf m \<and> handles_ok m \<and>
            (same_junk e e' (globals (g_machine g1)) \<longrightarrow> (\<exists>pf' t'. simulate e' h1 = Inr (pf', t', m))))
     | _ \<Rightarrow> False"
  proof (cases ?x)
    case (Inl a)
    then show ?thesis using same by (cases ?y) (auto simp: same_outcome_def next_commands_def)
  next
    case (Inr g2)
    then obtain h2 where 2: "?y = Inr h2" "g_machine h2 = g_machine g2" "simulation_goal h2 = simulation_goal g2"
      "only_machine ?g g2" "only_machine ?h h2" "keeps (n * command_room (g_machine g)) (g_machine g) (g_machine g2)"
      using same by (cases ?y) (simp_all add: same_outcome_def)
    have "handles_ok (g_machine g2)" using 2(6) assms(2) by (simp add: keeps_def)
    then obtain m where m: "machine_wf m" "handles_ok m"
      "\<forall>e' g'. g_machine g' = g_machine g2 \<longrightarrow> same_junk e e' (globals (g_machine g2)) \<longrightarrow> e_lib e' = e_lib e \<longrightarrow>
        (\<exists>pf t. simulate e' g' = Inr (pf, t, m))"
      using simulate_wf [OF keepsD [OF 2(6)] _ assms(12)] by blast
    have "same_junk e e (globals (g_machine g2))" by (simp add: same_junk_def)
    then obtain pf t where s1: "simulate e g2 = Inr (pf, t, m)" using m(3) by blast
    have s2: "same_junk e e' (globals (g_machine g2)) \<Longrightarrow> \<exists>pf' t'. simulate e' h2 = Inr (pf', t', m)"
      using m(3) 2(2) assms(14) by blast
    have "game_record g2 = rws" "game_record h2 = rws'"
      using only_machine_same [OF 2(4)] only_machine_same [OF 2(5)] by simp_all
    then show ?thesis using Inr 2(1-3) s1 s2 m(1,2) by auto
  qed
  then show ?thesis
    by (intro exI [of _ "\<lparr>fr_buffer = b, fr_command = places 0 ?ms\<rparr>"] exI [of _ rws]
        exI [of _ "\<lparr>fr_buffer = b', fr_command = places 0 ?ms\<rparr>"] exI [of _ rws'])
      (simp add: g1(1,3) h1(1,3))
qed

end
