(* ===== verification/Game.thy ===== *)
theory Game
  imports Game_Props
begin

text \<open>The properties of single components of the game: its frames, stalls, input, and the data flow
  between variables and loaded functions.\<close>

section \<open>Data flow\<close>

lemma set_var_simps [simp]:
  "result_func (set_var k f m) = result_func m" "used_result_func (set_var k f m) = used_result_func m"
  "load_param_handle (set_var k f m) = load_param_handle m"
  "save_result_handle (set_var k f m) = save_result_handle m" "dlfn (set_var k f m) = dlfn m"
  "result (set_var k f m) = result m" "memory (set_var k f m) = memory m"
  "hash_objects (set_var k f m) = hash_objects m"
  "global_used (globals (set_var k f m)) = global_used (globals m)"
  "global_var (globals (set_var k f m)) = (global_var (globals m))[k := f (global_var (globals m) ! k)]"
  by (simp_all add: set_var_def)

lemma set_param_simps [simp]:
  "result_func (set_param fi pj p m) = result_func m"
  "used_result_func (set_param fi pj p m) = used_result_func m"
  "load_param_handle (set_param fi pj p m) = load_param_handle m"
  "save_result_handle (set_param fi pj p m) = save_result_handle m"
  "globals (set_param fi pj p m) = globals m" "result (set_param fi pj p m) = result m"
  "memory (set_param fi pj p m) = memory m"
  by (simp_all add: set_param_def)

lemma set_param_function:
  "fi < length (dlfn_function (dlfn m)) \<Longrightarrow>
   fnctor (dlfn_function (dlfn (set_param fi pj p m)) ! fi) =
     (fnctor (dlfn_function (dlfn m) ! fi))\<lparr>params := (params (fnctor (dlfn_function (dlfn m) ! fi)))[pj := p]\<rparr>"
  by (simp add: set_param_def)

lemma set_var_type_get:
  "global_get n (globals (set_var k (\<lambda>v. v\<lparr>g_type := t\<rparr>) m)) = global_get n (globals m)"
proof -
  have "g_name (((global_var (globals m))[k := (global_var (globals m) ! k)\<lparr>g_type := t\<rparr>]) ! i) =
      g_name (global_var (globals m) ! i)" for i
    by (cases "k < length (global_var (globals m))"; cases "i = k") (simp_all add: list_update_beyond)
  then show ?thesis by (simp add: global_get_def)
qed

lemma parameter_from_skip:
  "\<forall>fi \<in> set fis. name_of m fi \<noteq> token ! 1 \<Longrightarrow> first_char (token ! 1) \<noteq> ch CHR ''*'' \<Longrightarrow>
   parameter_from token fis m = m"
  by (induction fis) auto

lemma parameter_from_append:
  "parameter_from token (xs @ ys) m = parameter_from token ys (parameter_from token xs m)"
  by (induction xs arbitrary: m) (simp_all add: Let_def)

text \<open>Binding the first parameter of a function to a variable, and its result to another.\<close>

definition bound_param :: "nat \<Rightarrow> nat \<Rightarrow> machine \<Rightarrow> machine" where
  "bound_param i k m =
     (set_var k (\<lambda>v. v\<lparr>g_type := ty_int\<rparr>) m)
       \<lparr>result_func := (result_func m)[used_result_func m := copy_functor (PParam i 0) (PValue k)],
        used_result_func := used_result_func m + 1,
        load_param_handle := (load_param_handle m)
          [i := (load_param_handle m ! i)[0 := int (used_result_func m)]]\<rparr>"

definition bound_result :: "nat \<Rightarrow> nat \<Rightarrow> machine \<Rightarrow> machine" where
  "bound_result i k m =
     (set_var k (\<lambda>v. v\<lparr>g_type := ty_int\<rparr>) m)
       \<lparr>result_func := (result_func m)[used_result_func m := copy_functor (PValue k) (PResult i)],
        used_result_func := used_result_func m + 1,
        save_result_handle := (save_result_handle m)[i := int (used_result_func m)]\<rparr>"

lemma execute_parameter_bound:
  assumes "tokens len input 6 = Inr [t0, f, x]" and "first_char f \<noteq> ch CHR ''*''"
    and "i < dlfn_used_function (dlfn m)" and "\<forall>j < dlfn_used_function (dlfn m). name_of m j = f \<longleftrightarrow> j = i"
    and "global_get x (globals m) = Some k" and "0 < used_result_func m" and "used_result_func m < MAX_FUNC"
  shows "execute_parameter len input m = Inr (bound_param i k m)"
proof -
  let ?tok = "[t0, f, x]"
  have run: "[0..<dlfn_used_function (dlfn m)] = [0..<i] @ i # [Suc i..<dlfn_used_function (dlfn m)]"
    using assms(3) upt_add_eq_append [of 0 i "dlfn_used_function (dlfn m) - i"] by (simp add: upt_conv_Cons)
  have three: "[0..<PARAM_COUNT] = [0, 1, 2]" by (simp add: PARAM_COUNT_def upt_rec)
  have set: "set_params ?tok i [0, 1, 2] m = bound_param i k m"
    using assms(5-7)
    by (simp add: set_load_param_def add_result_func_def Let_def bound_param_def)
  have names: "name_of (bound_param i k m) = name_of m" by (rule ext) (simp add: name_of_def bound_param_def)
  have fst: "parameter_from ?tok [0..<i] m = m"
    using assms(2-4) by (intro parameter_from_skip) auto
  have last: "parameter_from ?tok [Suc i..<dlfn_used_function (dlfn m)] (bound_param i k m) = bound_param i k m"
    using assms(2,4) by (intro parameter_from_skip) (auto simp: names)
  have "name_of m i = f" using assms(3,4) by blast
  then have "parameter_from ?tok (i # [Suc i..<dlfn_used_function (dlfn m)]) m = bound_param i k m"
    using assms(2) set last three by (simp add: Let_def)
  then have "parameter_from ?tok [0..<dlfn_used_function (dlfn m)] m = bound_param i k m"
    unfolding run parameter_from_append fst .
  then show ?thesis using assms(1) by (simp add: execute_parameter_def)
qed

lemma execute_result_bound:
  assumes "tokens len input 3 = Inr [t0, f, y]" and "dlfn_get_symbol f (dlfn m) = Some i"
    and "global_get y (globals m) = Some k" and "used_result_func m < MAX_FUNC"
  shows "execute_result len input m = Inr (bound_result i k m)"
  using assms
  by (simp add: execute_result_def set_store_param_def global_get_or_create_def add_result_func_def
      bound_result_def Let_def)

lemma invoke_copy:
  assumes "h = int n" and "n < length (result_func m)" and "result_func m ! n = copy_functor dst src"
    and "load_ptr src m = Inr v" and "store_ptr dst v m = Inr m'"
  shows "invoke_handle lib h m = Inr m'"
  using assms by (simp add: invoke_handle_def functor_invoke_def copy_functor_def call_func_def copy_def)

lemma invoke_noop:
  assumes "0 < length (result_func m)" and "result_func m ! 0 = functor_init (Some Noop)"
  shows "invoke_handle lib 0 m = Inr m"
  using assms by (simp add: invoke_handle_def functor_invoke_def functor_init_def call_func_def)

lemma bound_run:
  assumes "machine_wf m" and "i < dlfn_used_function (dlfn m)"
    and "load_param_handle m ! i = [0, 0, 0]" and "result_func m ! 0 = functor_init (Some Noop)"
    and "0 < used_result_func m" and "used_result_func m + 1 < MAX_FUNC"
    and "k < MAX_VARIABLE" and "k' < MAX_VARIABLE" and "g_value (global_var (globals m) ! k) = Bits v"
    and "k \<noteq> k'" and "call (fnctor (dlfn_function (dlfn m) ! i)) = Some (Loaded a)"
    and "lib a ((params (fnctor (dlfn_function (dlfn m) ! i)))[0 := Bits v]) (memory m) = (r, mem')"
  shows "\<exists>m3. run_function lib rd t i (bound_result i k' (bound_param i k m)) =
      Inr (to_double (rd (t + 1) - rd t), m3) \<and>
    g_value (global_var (globals m3) ! k') = Bits r \<and> result m3 ! i = r \<and> memory m3 = mem'"
proof -
  let ?u = "used_result_func m" and ?f = "fnctor (dlfn_function (dlfn m) ! i)"
  define m2 where "m2 = bound_result i k' (bound_param i k m)"
  have i: "i < MAX_SYMBOLS" "i < length (dlfn_function (dlfn m))" "0 < length (params ?f)"
    using assms(1,2) param_length [OF assms(1), of i]
    by (simp_all add: machine_wf_def functions_wf_def dlfn_wf_def PARAM_COUNT_def)
  have lens: "length (result_func m) = MAX_FUNC" "length (global_var (globals m)) = MAX_VARIABLE"
    "length (result m) = MAX_SYMBOLS" "length (load_param_handle m) = MAX_SYMBOLS"
    "length (save_result_handle m) = MAX_SYMBOLS"
    using assms(1) by (simp_all add: machine_wf_def globals_wf_def)
  have rf: "result_func m2 = (result_func m)[?u := copy_functor (PParam i 0) (PValue k),
      Suc ?u := copy_functor (PValue k') (PResult i)]"
    by (simp add: m2_def bound_result_def bound_param_def)
  have hs: "load_param_handle m2 ! i = [int ?u, 0, 0]" "save_result_handle m2 ! i = int (Suc ?u)"
    using i(1) lens assms(3) by (simp_all add: m2_def bound_result_def bound_param_def)
  have keep: "dlfn m2 = dlfn m" "result m2 = result m" "memory m2 = memory m"
    by (simp_all add: m2_def bound_result_def bound_param_def)
  have gv: "length (global_var (globals m2)) = MAX_VARIABLE" "g_value (global_var (globals m2) ! k) = Bits v"
    using lens(2) assms(7-10) by (simp_all add: m2_def bound_result_def bound_param_def)
  define m3 where "m3 = set_param i 0 (Bits v) m2"
  have f3: "fnctor (dlfn_function (dlfn m3) ! i) = ?f\<lparr>params := (params ?f)[0 := Bits v]\<rparr>"
    unfolding m3_def using i(2) by (simp add: set_param_function keep)
  have 1: "invoke_handle lib (int ?u) m2 = Inr m3"
  proof (rule invoke_copy [where n = ?u])
    show "result_func m2 ! ?u = copy_functor (PParam i 0) (PValue k)" using lens(1) assms(6) by (simp add: rf)
    show "load_ptr (PValue k) m2 = Inr (Bits v)" using gv assms(7) by (simp add: load_ptr_def)
    show "store_ptr (PParam i 0) (Bits v) m2 = Inr m3" using i keep(1) by (simp add: store_ptr_def m3_def)
  qed (use lens(1) assms(6) in \<open>simp_all add: rf\<close>)
  have "result_func m3 ! 0 = functor_init (Some Noop)" "0 < length (result_func m3)"
    using assms(4-6) lens(1) by (simp_all add: m3_def rf)
  then have 0: "invoke_handle lib 0 m3 = Inr m3" by (intro invoke_noop)
  have "load_param_handle m3 = load_param_handle m2" by (simp add: m3_def)
  then have load: "call_load_param lib i m2 = Inr m3"
    using 0 1 hs(1) by (simp add: call_load_param_def PARAM_COUNT_def upt_rec)
  define m4 where "m4 = m3\<lparr>memory := mem', result := (result m3)[i := r]\<rparr>"
  have inv: "functor_invoke (call_func lib) (fnctor (dlfn_function (dlfn m3) ! i)) m3 = Inr (r, m3\<lparr>memory := mem'\<rparr>)"
    using assms(11,12) keep(3) by (simp add: f3 functor_invoke_def call_func_def) (simp add: m3_def)
  define m5 where "m5 = set_var k' (\<lambda>x. x\<lparr>g_value := Bits r\<rparr>) m4"
  have 2: "invoke_handle lib (int (Suc ?u)) m4 = Inr m5"
  proof (rule invoke_copy [where n = "Suc ?u"])
    show "result_func m4 ! Suc ?u = copy_functor (PValue k') (PResult i)"
      using lens(1) assms(6) by (simp add: m4_def m3_def rf)
    show "load_ptr (PResult i) m4 = Inr (Bits r)"
      using i(1) lens(3) keep(2) by (simp add: load_ptr_def m4_def m3_def)
    show "store_ptr (PValue k') (Bits r) m4 = Inr m5"
      using gv(1) assms(8) by (simp add: store_ptr_def m5_def m4_def m3_def)
  qed (use lens(1) assms(6) in \<open>simp_all add: m4_def m3_def rf\<close>)
  have "save_result_handle m4 ! i = int (Suc ?u)" using hs(2) by (simp add: m4_def m3_def)
  then have store: "call_store_result lib i m4 = Inr m5" using 2 by (simp add: call_store_result_def)
  have "run_function lib rd t i m2 = Inr (to_double (rd (t + 1) - rd t), m5)"
    using load inv store by (simp add: run_function_def m4_def)
  moreover have "g_value (global_var (globals m5) ! k') = Bits r" "result m5 ! i = r" "memory m5 = mem'"
    using gv(1) assms(8) i(1) lens(3) keep(2) by (simp_all add: m5_def m4_def m3_def)
  ultimately show ?thesis unfolding m2_def by blast
qed

text \<open>C5: Binding works: after \<open>parameter f x\<close> and \<open>result f y\<close> a run of the function \<open>f\<close> is a call of
  the loaded code with the value of \<open>x\<close> as first parameter, and the value returned is the new value
  of \<open>y\<close>; what the call does to its memory stays.\<close>

theorem bound_function_runs:
  assumes "machine_wf m" and "i < dlfn_used_function (dlfn m)"
    and "\<forall>j < dlfn_used_function (dlfn m). name_of m j = f \<longleftrightarrow> j = i" and "dlfn_get_symbol f (dlfn m) = Some i"
    and "first_char f \<noteq> ch CHR ''*''" and "load_param_handle m ! i = [0, 0, 0]"
    and "result_func m ! 0 = functor_init (Some Noop)"
    and "0 < used_result_func m" and "used_result_func m + 1 < MAX_FUNC"
    and "tokens len input 6 = Inr [t0, f, x]" and "tokens len' input' 3 = Inr [t1, f, y]"
    and "global_get x (globals m) = Some k" and "global_get y (globals m) = Some k'" and "k \<noteq> k'"
    and "g_value (global_var (globals m) ! k) = Bits v"
    and "call (fnctor (dlfn_function (dlfn m) ! i)) = Some (Loaded a)"
    and "lib a ((params (fnctor (dlfn_function (dlfn m) ! i)))[0 := Bits v]) (memory m) = (r, mem')"
  shows "\<exists>m1 m2 m3. execute_parameter len input m = Inr m1 \<and> execute_result len' input' m1 = Inr m2 \<and>
    run_function lib rd t i m2 = Inr (to_double (rd (t + 1) - rd t), m3) \<and>
    g_value (global_var (globals m3) ! k') = Bits r \<and> result m3 ! i = r \<and> memory m3 = mem'"
proof -
  have g: "globals_wf (globals m)" using assms(1) by (simp add: machine_wf_def)
  have k: "k < MAX_VARIABLE" "k' < MAX_VARIABLE"
    using global_get_Some(1) [OF g assms(12)] global_get_Some(1) [OF g assms(13)] g
    by (simp_all add: globals_wf_def)
  have p: "execute_parameter len input m = Inr (bound_param i k m)"
    using assms(2,3,5,8,9,10,12) by (intro execute_parameter_bound) auto
  have "globals (bound_param i k m) = globals (set_var k (\<lambda>v. v\<lparr>g_type := ty_int\<rparr>) m)"
    "dlfn (bound_param i k m) = dlfn m" by (simp_all add: bound_param_def)
  then have "global_get y (globals (bound_param i k m)) = Some k'"
    "dlfn_get_symbol f (dlfn (bound_param i k m)) = Some i"
    using assms(4,13) set_var_type_get [of y k ty_int m] by simp_all
  moreover have "used_result_func (bound_param i k m) < MAX_FUNC" using assms(9) by (simp add: bound_param_def)
  ultimately have "execute_result len' input' (bound_param i k m) = Inr (bound_result i k' (bound_param i k m))"
    using execute_result_bound [OF assms(11)] by blast
  then show ?thesis
    using p bound_run [where lib = lib and a = a, OF assms(1,2,6-9) k assms(15,14,16,17)] by blast
qed

text \<open>A machine with two variables, and a function that returns its first parameter plus one.\<close>

definition demo2 :: machine where
  "demo2 = (demo 1)\<lparr>globals := snd (global_get_or_create [121] (one_variable ty_int 5 op_zero))\<rparr>"

definition successor :: library where
  "successor a ps mem = (case ps ! 0 of Bits w \<Rightarrow> (w + 1, mem) | Addr _ \<Rightarrow> (0, mem))"

lemma demo2:
  "machine_wf demo2" "handles_ok demo2" "global_get [120] (globals demo2) = Some 0"
  "global_get [121] (globals demo2) = Some 1" "g_value (global_var (globals demo2) ! 0) = Bits 5"
  "dlfn demo2 = demo_functions" "used_result_func demo2 = 1"
  "load_param_handle demo2 = replicate MAX_SYMBOLS (replicate PARAM_COUNT 0)"
  "result_func demo2 = replicate MAX_FUNC (functor_init (Some Noop))"
proof -
  let ?g = "one_variable ty_int 5 op_zero"
  have g: "globals_wf ?g" by (rule one_variable_wf) simp
  have names: "short_name [120]" "short_name [121]" by (simp_all add: short_name_def MAX_VARIABLE_NAME_def)
  have no: "global_get [121] ?g = None"
    using name_array(1) [of "[120]"] by (simp add: global_get_None [OF g])
  obtain g' where g': "global_get_or_create [121] ?g = (Some (global_used ?g), g')" "globals_wf g'"
    "global_get [121] g' = Some (global_used ?g)" "\<forall>n. short_name n \<longrightarrow> n \<noteq> [121] \<longrightarrow> global_get n g' = global_get n ?g"
    using vars.create_new [OF g names(2) no] by (auto simp: MAX_VARIABLE_def)
  have "global_var g' ! 0 = global_var ?g ! 0"
    using g'(1) no by (auto simp: global_get_or_create_def Let_def MAX_VARIABLE_def)
  then show "g_value (global_var (globals demo2) ! 0) = Bits 5" by (simp add: demo2_def g'(1))
  show "global_get [120] (globals demo2) = Some 0" "global_get [121] (globals demo2) = Some 1"
    using g'(3,4) names(1) demo_names(2) by (simp_all add: demo2_def g'(1))
  have "machine_wf (demo 1)" by (rule demo_wf) (simp add: MAX_FUNC_def MAX_SYMBOLS_def PARAM_COUNT_def)
  then show "machine_wf demo2" using g'(2) by (simp add: machine_wf_def demo2_def g'(1))
  show "handles_ok demo2" by (simp add: handles_ok_def demo2_def demo_def machine_start_def)
  show "dlfn demo2 = demo_functions" "used_result_func demo2 = 1"
    "load_param_handle demo2 = replicate MAX_SYMBOLS (replicate PARAM_COUNT 0)"
    "result_func demo2 = replicate MAX_FUNC (functor_init (Some Noop))"
    by (simp_all add: demo2_def demo_def machine_start_def)
qed

theorem bound_function_runs_witness:
  "\<exists>m1 m2 d m3. execute_parameter 5 (str ''p f x'' @ [0]) demo2 = Inr m1 \<and>
    execute_result 5 (str ''r f y'' @ [0]) m1 = Inr m2 \<and>
    run_function successor (\<lambda>_. 0) 0 0 m2 = Inr (d, m3) \<and> g_value (global_var (globals m3) ! 1) = Bits 6"
proof -
  have n: "nul_free (str ''p f x'')" "nul_free (str ''r f y'')" by (simp_all add: ch_def)
  have len: "length (str ''p f x'') = 5" "length (str ''r f y'') = 5" by simp_all
  have "split_spaces (Suc (Suc (Suc (Suc (Suc (Suc 0)))))) (str ''p f x'') = [[112], [102], [120]]"
    "split_spaces (Suc (Suc (Suc 0))) (str ''r f y'') = [[114], [102], [121]]"
    by (simp_all add: ch_def)
  then have tok: "tokens 5 (str ''p f x'' @ [0]) 6 = Inr [[112], [102], [120]]"
    "tokens 5 (str ''r f y'' @ [0]) 3 = Inr [[114], [102], [121]]"
    using tokens_split [OF n(1), of "[]" 5] tokens_split [OF n(2), of "[]" 2]
    unfolding len by (simp_all add: numeral_eq_Suc)
  have m: "0 < MAX_SYMBOLS" "0 < MAX_FUNC" "1 + 1 < MAX_FUNC"
    by (simp_all add: MAX_FUNC_def MAX_SYMBOLS_def PARAM_COUNT_def)
  have f: "dlfn_used_function demo_functions = 1" "f_name (dlfn_function demo_functions ! 0) = Some [102]"
    "fnctor (dlfn_function demo_functions ! 0) = functor_init (Some (Loaded 4096))"
    by (simp_all add: demo_functions_def MAX_SYMBOLS_def)
  have "successor 4096 ((params (functor_init (Some (Loaded 4096))))[0 := Bits 5]) (memory demo2) = (6, memory demo2)"
    by (simp add: successor_def functor_init_def functor_zero_def PARAM_COUNT_def)
  moreover have "\<forall>j < 1. name_of demo2 j = [102] \<longleftrightarrow> j = 0" using f by (simp add: name_of_def demo2(6))
  moreover have "load_param_handle demo2 ! 0 = [0, 0, 0]"
    using m by (simp add: demo2(8) PARAM_COUNT_def numeral_3_eq_3)
  ultimately show ?thesis
    using bound_function_runs [of demo2 0 "[102]" 5 "str ''p f x'' @ [0]" "[112]" "[120]" 5 "str ''r f y'' @ [0]"
        "[114]" "[121]" 0 1 5 4096 successor 6 "memory demo2" "\<lambda>_. 0" 0]
      tok m f demo2 demo_names(1) by (simp add: ch_def first_char_def functor_init_def) blast
qed

section \<open>Turns\<close>

lemma backlog:
  assumes "rw_log rw ms k"
  shows "command_count (rw_write rw) - command_count (rw_read rw) = of_nat (length ms - k)"
    and "command_count (rw_write rw) - command_count (rw_read rw) = 0 \<longleftrightarrow> k = length ms"
proof -
  obtain r where r: "k \<le> length ms" "offset_at (rw_write rw) ms" "offset_at (rw_read rw) (take k ms)"
    "length (encode 0 ms) \<le> log_limit"
    using assms by (auto simp: rw_log_def)
  then have "command_count (rw_write rw) = of_nat (length ms)" "command_count (rw_read rw) = of_nat k"
    by (simp_all add: offset_at_def min_absorb2)
  then show d: "command_count (rw_write rw) - command_count (rw_read rw) = of_nat (length ms - k)"
    using r(1) by (simp add: of_nat_diff)
  have "length ms - k < 2 ^ 32"
    using r(4) length_encode_ge [of ms 0] by (simp add: log_limit_def)
  then have "unat (of_nat (length ms - k) :: u32) = length ms - k" by (rule unat_of_nat32)
  then have "(of_nat (length ms - k) :: u32) = 0 \<longleftrightarrow> length ms - k = 0"
    by (metis unat_eq_zero)
  then show "command_count (rw_write rw) - command_count (rw_read rw) = 0 \<longleftrightarrow> k = length ms"
    using d r(1) by auto
qed

lemma preview_nearest_zero:
  "turn_nearest (preview_from rws p) = 0 \<longleftrightarrow>
   turn_nearest p = 0 \<or> (\<exists>rw \<in> set rws. command_count (rw_write rw) - command_count (rw_read rw) = 0)"
  by (induction rws arbitrary: p) (auto simp: Let_def min_def)

lemma nearest_zero:
  assumes "logs_at (game_record g) L K n" and "input_queue_max (g_loop g) \<noteq> 0"
  shows "turn_nearest (command_preview n (game_record g) (g_loop g)) = 0 \<longleftrightarrow> (\<exists>p < n. K p = length (L p))"
proof -
  have nth: "set (take n (game_record g)) = (!) (game_record g) ` {..<n}"
    using assms(1) by (simp add: logs_at_def nth_image [symmetric] atLeast0LessThan)
  have log: "rw_log (game_record g ! p) (L p) (K p)" if "p < n" for p
    using assms(1) that by (simp add: logs_at_def)
  have "(\<exists>rw \<in> set (take n (game_record g)). command_count (rw_write rw) - command_count (rw_read rw) = 0) \<longleftrightarrow>
      (\<exists>p < n. K p = length (L p))"
    unfolding nth using backlog(2) [OF log] by auto
  then show ?thesis
    using assms(2) by (simp add: command_preview_def preview_nearest_zero loop_input_queue_max_def)
qed

lemma stall_due:
  assumes "(now, j) \<in> set rs" and "due now (l_clock st)"
  shows "\<exists>st'. loop_stall rs st = Inr st' \<and> frame st' = frame st \<and> pause_frame st' = pause_frame st \<and>
    stall_frame st' = stall_frame st + 1 \<and> running st' = running st"
proof -
  have "\<exists>st'. loop_wait rs (st\<lparr>stall_frame := stall_frame st + 1\<rparr>) = Inr st' \<and>
      waited (st\<lparr>stall_frame := stall_frame st + 1\<rparr>) st'"
    using loop_wait_due [of rs "st\<lparr>stall_frame := stall_frame st + 1\<rparr>"]
      loop_wait_sync [of rs "st\<lparr>stall_frame := stall_frame st + 1\<rparr>"] assms by fastforce
  then show ?thesis by (auto simp: loop_stall_def loop_one_def waited_def)
qed

text \<open>Small logs, and a world in which nothing happens.\<close>

lemma small_log:
  "\<forall>m \<in> set ms. nul_free m \<and> length m < 4096 \<Longrightarrow> length (encode 0 ms) + 4096 \<le> log_limit \<Longrightarrow>
   \<exists>rw. rw_log rw ms 0"
proof (induction ms rule: rev_induct)
  case Nil
  obtain r where "record_alloc all_succeed = Inr r"
    by (simp add: record_alloc_def malloc_def all_succeed_def)
  from rw_new_log [OF this] show ?case by (auto simp: all_succeed_def)
next
  case (snoc m ms)
  obtain rw where rw: "rw_log rw ms 0" using snoc by auto
  have "log_fits ms m" using snoc.prems by (simp add: log_fits_def)
  from rw_append_log [where alc = all_succeed, OF rw this] show ?case by (auto simp: all_succeed_def)
qed

definition idle_world :: env where
  "idle_world =
     \<lparr>e_notify_poll = Inr (\<lambda>_. 0), e_notify_read = (\<lambda>_ _. Read_ok []), e_stdin_poll = (\<lambda>_ _. Poll_ok 0),
      e_stdin_read = Read_ok [], e_conn_poll = (\<lambda>_ _. Poll_ok POLLOUT), e_conn_read = Read_ok [],
      e_conn_write = (\<lambda>bs. Write_ok (length bs)), e_alloc = all_succeed, e_clk = 0,
      e_readings = [(50000, 0), (150000, 0)], e_lib = successor, e_tsc = (\<lambda>n. of_nat (100 * n)),
      e_junk = (\<lambda>_. Bits 0)\<rparr>"

definition two_players :: "rw_t list \<Rightarrow> game" where
  "two_players rws = (game_start (\<lambda>_. 0))
     \<lparr>game_record := rws, g_loop := loop_start\<lparr>l_clock := example_clock 0, input_queue_max := 10\<rparr>, g_machine := demo2\<rparr>"

lemma two_players [simp]:
  "game_record (two_players rws) = rws" "input_queue_max (g_loop (two_players rws)) = 10"
  "l_clock (g_loop (two_players rws)) = example_clock 0" "g_machine (two_players rws) = demo2"
  "length (frame_buffer (two_players rws)) = FRAME_BUF_LEN"
  by (simp_all add: two_players_def game_start_def FRAME_BUF_LEN_def)

lemma two_logs:
  "rw_log a (L 0) (K 0) \<Longrightarrow> rw_log b (L 1) (K 1) \<Longrightarrow> logs_at [a, b] L K 2"
  by (auto simp: logs_at_def less_2_cases_iff)

text \<open>C4: Nobody runs ahead: while some player's next command has not arrived, a turn only stalls. No
  command is read, no function runs, and neither the frame nor the paused frames are counted.\<close>

theorem turn_waits_for_all:
  assumes "logs_at (game_record g) L K n" and "input_queue_max (g_loop g) \<noteq> 0"
    and "p < n" and "K p = length (L p)"
    and "(now, j) \<in> set (e_readings e)" and "due now (l_clock (g_loop g))"
  shows "\<exists>lp. game_turn e n g = Inr (g\<lparr>g_loop := lp\<rparr>) \<and> frame lp = frame (g_loop g) \<and>
    pause_frame lp = pause_frame (g_loop g) \<and> stall_frame lp = stall_frame (g_loop g) + 1"
proof -
  have z: "turn_nearest (command_preview n (game_record g) (g_loop g)) = 0"
    using nearest_zero [OF assms(1,2)] assms(3,4) by blast
  define lp where "lp = (g_loop g)\<lparr>input_queue := c_min (input_queue (g_loop g) + 1) (input_queue_max (g_loop g))\<rparr>"
  have "due now (l_clock lp)" using assms(6) by (simp add: lp_def)
  from stall_due [OF assms(5) this] obtain st' where st': "loop_stall (e_readings e) lp = Inr st'"
    "frame st' = frame lp" "pause_frame st' = pause_frame lp" "stall_frame st' = stall_frame lp + 1" by blast
  have "game_turn e n g = Inr (g\<lparr>g_loop := st'\<rparr>)" using z st'(1) by (simp add: game_turn_def Let_def lp_def)
  then show ?thesis using st'(2-4) by (intro exI [of _ st']) (simp add: lp_def)
qed

theorem turn_waits_for_all_witness:
  "\<exists>rws lp. game_turn idle_world 2 (two_players rws) = Inr ((two_players rws)\<lparr>g_loop := lp\<rparr>) \<and>
    frame lp = frame (g_loop (two_players rws))"
proof -
  obtain a where a: "rw_log a [str ''s''] 0" using small_log [of "[str ''s'']"] by (auto simp: log_limit_def ch_def)
  obtain b where b: "rw_log b [] 0" using small_log [of "[]"] by (auto simp: log_limit_def)
  define L where "L = (\<lambda>p :: nat. if p = 0 then [str ''s''] else [] :: byte list list)"
  have "logs_at [a, b] L (\<lambda>_. 0) 2" using a b by (intro two_logs) (simp_all add: L_def)
  moreover have "due 150000 (example_clock 0)"
    by (simp add: due_def clock_sync_def Let_def example_clock_def)
  ultimately show ?thesis
    using turn_waits_for_all [of "two_players [a, b]" L "\<lambda>_. 0" 2 1 150000 0 idle_world]
    by (auto simp: L_def idle_world_def)
qed

text \<open>C19: A frame has 4096 bytes for the commands of all players, terminators included. When the next
  commands need more, the turn is not refused: every client crashes.\<close>

theorem long_frame_crashes:
  assumes "logs_at (game_record g) L K n" and "input_queue_max (g_loop g) \<noteq> 0"
    and "\<forall>p < n. K p < length (L p)" and "length (frame_buffer g) = FRAME_BUF_LEN"
    and "length (encode 0 (next_commands L K n)) > FRAME_BUF_LEN"
  shows "game_turn e n g = Inl CrashCall"
proof -
  have "turn_nearest (command_preview n (game_record g) (g_loop g)) \<noteq> 0"
    using nearest_zero [OF assms(1,2)] assms(3) by auto
  moreover obtain rws where "command_frame n (game_record g) (frame_buffer g) = Inr (None, rws)"
    using command_frame_spec(2) [OF assms(1,3,4) refl assms(5)] by blast
  ultimately show ?thesis by (simp add: game_turn_def)
qed

theorem long_frame_crashes_witness:
  "\<exists>rws m. length m < 2100 \<and> logs_at rws (\<lambda>_. [m]) (\<lambda>_. 0) 2 \<and>
    game_turn idle_world 2 (two_players rws) = Inl CrashCall"
proof -
  obtain m :: "byte list" where m: "nul_free m" "length m = 2050"
    using Ex_list_of_length [of 2050] by (metis length_replicate in_set_replicate nul_free_def zero_neq_one)
  obtain a where "rw_log a [m] 0" using small_log [of "[m]"] m by (auto simp: log_limit_def)
  then have logs: "logs_at [a, a] (\<lambda>_. [m]) (\<lambda>_. 0) 2" by (intro two_logs)
  have "next_commands (\<lambda>_. [m]) (\<lambda>_. 0) 2 = [m, m]" by (simp add: next_commands_def upt_rec)
  then have "FRAME_BUF_LEN < length (encode 0 (next_commands (\<lambda>_. [m]) (\<lambda>_. 0) 2))"
    using m(2) by (simp add: FRAME_BUF_LEN_def)
  then have "game_turn idle_world 2 (two_players [a, a]) = Inl CrashCall"
    using logs by (intro long_frame_crashes [where L = "\<lambda>_. [m]" and K = "\<lambda>_. 0"]) simp_all
  then show ?thesis using logs m(2) by (intro exI [of _ "[a, a]"] exI [of _ m]) simp
qed

text \<open>C13: Filling up the input ends, and leaves exactly as many commands as frames are wanted: those
  typed, then empty ones.\<close>

theorem fill_input_target:
  assumes "rw_log rw ms k" and "length ms \<le> unat target"
    and "length (encode 0 ms) + (unat target - length ms) + 4096 \<le> log_limit" and "\<And>n. alc n \<noteq> None"
  shows "\<exists>rw'. fill_input (Suc (unat (target - command_count (rw_write rw)))) alc target rw = Inr rw' \<and>
    rw_log rw' (ms @ replicate (unat target - length ms) []) k"
proof -
  have count: "unat (command_count (rw_write rw)) = length ms" if "rw_log rw ms k" "length ms < 2 ^ 32" for rw ms
    using that unat_of_nat32 by (auto simp: rw_log_def offset_at_def)
  have small: "length ms < 2 ^ 32" using assms(2) u32_lt [of target] by simp
  have fuel: "unat (target - command_count (rw_write rw)) = unat target - length ms"
    using count [OF assms(1) small] assms(2) by (simp add: unat_sub_if' )
  have "\<exists>rw'. fill_input (Suc d) alc target rw = Inr rw' \<and> rw_log rw' (ms @ replicate d []) k"
    if "d = unat target - length ms" for d
    using that assms(1-3)
  proof (induction d arbitrary: rw ms)
    case 0
    have "length ms < 2 ^ 32" using 0(3) u32_lt [of target] by simp
    then have "\<not> target > command_count (rw_write rw)"
      using count [OF 0(2)] 0(1,3) by (simp add: word_less_nat_alt)
    then show ?case using 0(2) by simp
  next
    case (Suc d)
    have "length ms < 2 ^ 32" using Suc.prems(3) u32_lt [of target] by simp
    then have more: "target > command_count (rw_write rw)"
      using count [OF Suc.prems(2)] Suc.prems(1) by (simp add: word_less_nat_alt)
    have "log_fits ms []" using Suc.prems(4) by (simp add: log_fits_def)
    then obtain rw1 where rw1: "rw_append alc 0 [] rw = Inr rw1" "rw_log rw1 (ms @ [[]]) k"
      using rw_append_log [where m = "[]" and rest = "[]" and alc = alc, OF Suc.prems(2) _ assms(4)] by auto
    have "d = unat target - length (ms @ [[]])" "length (ms @ [[]]) \<le> unat target"
      "length (encode 0 (ms @ [[]])) + (unat target - length (ms @ [[]])) + 4096 \<le> log_limit"
      using Suc.prems(1,3,4) by simp_all
    from Suc.IH [OF this(1) rw1(2) this(2,3)] show ?case
      using more rw1(1) by (simp add: replicate_append_same [symmetric])
  qed
  then show ?thesis unfolding fuel by blast
qed

theorem fill_input_target_witness:
  "\<exists>rw rw'. rw_log rw [str ''s''] 0 \<and>
    fill_input (Suc (unat (3 - command_count (rw_write rw)))) all_succeed 3 rw = Inr rw' \<and>
    rw_log rw' [str ''s'', [], []] 0"
proof -
  obtain rw where rw: "rw_log rw [str ''s''] 0" using small_log [of "[str ''s'']"] by (auto simp: log_limit_def ch_def)
  have "\<exists>rw'. fill_input (Suc (unat (3 - command_count (rw_write rw)))) all_succeed 3 rw = Inr rw' \<and>
    rw_log rw' ([str ''s''] @ replicate (unat (3 :: u32) - length [str ''s'']) []) 0"
    by (rule fill_input_target [OF rw]) (simp_all add: log_limit_def all_succeed_def)
  moreover have "unat (3 :: u32) - length [str ''s''] = Suc (Suc 0)" by simp
  then have "[str ''s''] @ replicate (unat (3 :: u32) - length [str ''s'']) [] = [str ''s'', [], []]"
    by (simp only: replicate.simps append.simps)
  ultimately show ?thesis using rw by metis
qed

text \<open>Another client, with another clock.\<close>

definition late_world :: env where
  "late_world = idle_world\<lparr>e_clk := 90000, e_readings := [(250000, 0)], e_tsc := (\<lambda>n. of_nat (333 * n + 7))\<rparr>"

theorem replicas_agree_witness:
  "\<exists>rws f rws' g1 h1 pf t m pf' t'. logs_at rws (\<lambda>_. [str ''v x 7'']) (\<lambda>_. 0) 2 \<and>
    command_frame 2 rws (frame_buffer (two_players rws)) = Inr (Some f, rws') \<and>
    execute_commands idle_world (fr_buffer f) (fr_command f)
      ((two_players rws)\<lparr>game_record := rws', frame_buffer := fr_buffer f\<rparr>) = Inr g1 \<and>
    execute_commands late_world (fr_buffer f) (fr_command f)
      ((two_players rws)\<lparr>game_record := rws', frame_buffer := fr_buffer f\<rparr>) = Inr h1 \<and>
    simulate idle_world g1 = Inr (pf, t, m) \<and> simulate late_world h1 = Inr (pf', t', m)"
proof -
  obtain a where "rw_log a [str ''v x 7''] 0"
    using small_log [of "[str ''v x 7'']"] by (auto simp: log_limit_def ch_def)
  then have logs: "logs_at [a, a] (\<lambda>_. [str ''v x 7'']) (\<lambda>_. 0) 2" by (intro two_logs)
  let ?g = "two_players [a, a]" and ?L = "\<lambda>_. [str ''v x 7'']" and ?K = "\<lambda>_ :: nat. 0 :: nat"
  have plain: "replicated (str ''v x 7'')" by (simp add: replicated_def ch_def first_char_def)
  have room: "used_result_func demo2 + 2 * command_room demo2 \<le> MAX_FUNC"
    by (simp add: demo2 command_room_def demo_functions_def MAX_FUNC_def MAX_SYMBOLS_def PARAM_COUNT_def)
  have fits: "length (encode 0 (next_commands ?L ?K 2)) \<le> FRAME_BUF_LEN"
    by (simp add: next_commands_def upt_rec FRAME_BUF_LEN_def)
  have bits: "is_bits (e_junk idle_world i)" for i by (simp add: idle_world_def)
  have bits': "is_bits (e_junk late_world i)" for i using bits by (simp add: late_world_def)
  have lib: "e_lib late_world = e_lib idle_world" by (simp add: late_world_def idle_world_def)
  have plains: "\<forall>p < 2. ?K p < length (?L p) \<and> replicated (?L p ! ?K p)" using plain by simp
  have no_object: "\<not> object_command (str ''v x 7'')" by (simp add: object_command_def ch_def first_char_def)
  have logs': "logs_at (game_record ?g) ?L ?K 2" and room': "used_result_func (g_machine ?g) + 2 * command_room (g_machine ?g) \<le> MAX_FUNC"
    and wf: "machine_wf (g_machine ?g)" "handles_ok (g_machine ?g)" and buf: "length (frame_buffer ?g) = FRAME_BUF_LEN"
    using logs room demo2(1,2) by simp_all
  obtain f rws' f' rws'' where 1: "command_frame 2 (game_record ?g) (frame_buffer ?g) = Inr (Some f, rws')"
      "command_frame 2 (game_record ?g) (frame_buffer ?g) = Inr (Some f', rws'')"
    and 2: "case (execute_commands idle_world (fr_buffer f) (fr_command f) (?g\<lparr>game_record := rws', frame_buffer := fr_buffer f\<rparr>),
         execute_commands late_world (fr_buffer f') (fr_command f') (?g\<lparr>game_record := rws'', frame_buffer := fr_buffer f'\<rparr>)) of
       (Inl a, Inl b) \<Rightarrow> a = NullDeref \<and> b = NullDeref \<and> (\<exists>p < 2. object_command (?L p ! ?K p))
     | (Inr g1, Inr h1) \<Rightarrow>
         game_record g1 = rws' \<and> game_record h1 = rws'' \<and>
         simulation_goal h1 = simulation_goal g1 \<and> g_machine h1 = g_machine g1 \<and>
         (\<exists>pf t m. simulate idle_world g1 = Inr (pf, t, m) \<and> machine_wf m \<and> handles_ok m \<and>
            (same_junk idle_world late_world (globals (g_machine g1)) \<longrightarrow>
              (\<exists>pf' t'. simulate late_world h1 = Inr (pf', t', m))))
     | _ \<Rightarrow> False"
    using replicas_agree [OF wf refl refl logs' logs' plains fits buf buf room' bits bits' lib] by blast
  have f': "f' = f" "rws'' = rws'" using 1 by simp_all
  have junk: "same_junk idle_world late_world gl" for gl
    by (simp add: same_junk_def late_world_def idle_world_def)
  obtain g1 h1 pf t m pf' t' where
    "execute_commands idle_world (fr_buffer f) (fr_command f) (?g\<lparr>game_record := rws', frame_buffer := fr_buffer f\<rparr>) = Inr g1"
    "execute_commands late_world (fr_buffer f) (fr_command f) (?g\<lparr>game_record := rws', frame_buffer := fr_buffer f\<rparr>) = Inr h1"
    "simulate idle_world g1 = Inr (pf, t, m)" "simulate late_world h1 = Inr (pf', t', m)"
    using 2 no_object junk unfolding f' by (auto split: sum.splits prod.splits)
  then show ?thesis using 1(1) logs by (simp only: two_players(1)) blast
qed

section \<open>Reloading\<close>

text \<open>A file change halts the simulation exactly when the file's name occurs somewhere in the path
  \<open>code/feature.so\<close>; nothing else of the game changes. For an event without a name, the name is what
  follows the event in the buffer.\<close>

theorem reload_on_substring:
  assumes "event_ok ev" and "0 < ev_pad ev \<or> 0 \<in> set r"
  shows "\<exists>g'. notify_callback idx (event_bytes ev @ r) g = Inr g' \<and>
    (if \<exists>a b. str ''code/feature.so'' = a @ (if 0 < ev_pad ev then ev_name ev else cstr r) @ b
     then g' = g\<lparr>simulation_goal := 0, g_loop := loop_halt (g_loop g)\<rparr> else g' = g)"
proof (cases "0 < ev_pad ev")
  case True
  then have "drop 16 (event_bytes ev @ r) = ev_name ev @ 0 # replicate (ev_pad ev - 1) 0 @ r"
    using assms by (cases "ev_pad ev") (simp_all add: event_bytes_def event_ok_def)
  moreover have "nul_free (ev_name ev)" using assms by (simp add: event_ok_def)
  ultimately show ?thesis
    using True by (simp add: notify_callback_def sizeof_event_def dlpath_def strstr_iff del: str_simps)
next
  case False
  then have "drop 16 (event_bytes ev @ r) = r" using assms(1) by (simp add: event_bytes_def event_ok_def)
  then show ?thesis
    using False assms(2)
    by (simp add: notify_callback_def sizeof_event_def dlpath_def strstr_iff strlen_def del: str_simps)
qed

text \<open>The loaded file, but also one with the name of its directory, and an event that has no name.\<close>

theorem reload_on_substring_witness:
  "\<exists>g' g'' h. notify_callback 0 (event_bytes \<lparr>ev_wd = 1, ev_mask = 8, ev_cookie = 0, ev_name = str ''feature.so'', ev_pad = 6\<rparr> @ [])
      (game_start (\<lambda>_. 0)) = Inr g' \<and> \<not> running (g_loop g') \<and>
    notify_callback 0 (event_bytes \<lparr>ev_wd = 1, ev_mask = 8, ev_cookie = 0, ev_name = str ''code'', ev_pad = 12\<rparr> @ [])
      (game_start (\<lambda>_. 0)) = Inr g'' \<and> \<not> running (g_loop g'') \<and>
    notify_callback 0 (event_bytes \<lparr>ev_wd = 1, ev_mask = 32768, ev_cookie = 0, ev_name = [], ev_pad = 0\<rparr> @ [0])
      (game_start (\<lambda>_. 0)) = Inr h \<and> \<not> running (g_loop h)"
proof -
  let ?e = "\<lparr>ev_wd = 1, ev_mask = 8, ev_cookie = 0, ev_name = str ''feature.so'', ev_pad = 6\<rparr>"
  let ?f = "\<lparr>ev_wd = 1, ev_mask = 8, ev_cookie = 0, ev_name = str ''code'', ev_pad = 12\<rparr>"
  let ?n = "\<lparr>ev_wd = 1, ev_mask = 32768, ev_cookie = 0, ev_name = [], ev_pad = 0\<rparr>"
  have ok: "event_ok ?e" "event_ok ?f" "event_ok ?n" by (simp_all add: event_ok_def event_bytes_def NOTIFY_BUF_def ch_def)
  have "str ''code/feature.so'' = str ''code/'' @ str ''feature.so'' @ []"
    "str ''code/feature.so'' = [] @ str ''code'' @ str ''/feature.so''" by simp_all
  then have "\<exists>a b. str ''code/feature.so'' = a @ ev_name ?e @ b" "\<exists>a b. str ''code/feature.so'' = a @ ev_name ?f @ b"
    by (metis event.select_convs(4))+
  moreover have "str ''code/feature.so'' = [] @ cstr [0 :: byte] @ str ''code/feature.so''" by (simp add: cstr_def)
  then have "\<exists>a b. str ''code/feature.so'' = a @ cstr [0] @ b" by blast
  ultimately show ?thesis
    using reload_on_substring [OF ok(1), of "[]" 0 "game_start (\<lambda>_. 0)"]
      reload_on_substring [OF ok(2), of "[]" 0 "game_start (\<lambda>_. 0)"]
      reload_on_substring [OF ok(3), of "[0]" 0 "game_start (\<lambda>_. 0)"]
    by (auto simp: loop_halt_def)
qed

end
