(* ===== verification/Loopback.thy ===== *)
theory Loopback
  imports Game
begin

unbundle bit_operations_syntax

text \<open>
  The game without a remote host, with its two threads: the client of \<^verbatim>\<open>main.c\<close> and \<^verbatim>\<open>connection.c\<close> and the
  server thread of \<^verbatim>\<open>network_server.c\<close> take turns in any order, and the two directions of the socket pair
  hold the bytes that are written and not yet read. A step of the relation is one call of the code;
  its result is a state or a fault.
\<close>

section \<open>State\<close>

text \<open>
  \<open>n_typed\<close> are the commands recorded so far and \<open>n_executed\<close> those handed to the interpreter since
  the simulation started. \<open>n_up\<close> and \<open>n_down\<close> count the bytes the server and the client have read.
\<close>

record session =
  n_typed :: "byte list list"
  n_executed :: "byte list list"
  n_input :: rw_t
  n_game :: "rw_t list"
  n_conn :: conn_t
  n_server :: server_t
  n_up :: nat
  n_down :: nat
  n_players :: nat
  n_buffer :: "byte list"
  n_ended :: bool

definition session_start :: "record_t \<Rightarrow> server_t \<Rightarrow> conn_t \<Rightarrow> session" where
  "session_start r server c =
     \<lparr>n_typed = [], n_executed = [], n_input = rw_new r,
      n_game = replicate max_player \<lparr>rw_rec = None, rw_read = offset_zero, rw_write = offset_zero\<rparr>,
      n_conn = c, n_server = server, n_up = 0, n_down = 0, n_players = 0,
      n_buffer = replicate FRAME_BUF_LEN 0, n_ended = False\<rparr>"

text \<open>The bytes under way in the two directions.\<close>

definition up :: "session \<Rightarrow> byte list" where
  "up s = drop (n_up s) (c_sent (n_conn s))"

definition down :: "session \<Rightarrow> byte list" where
  "down s = drop (n_down s) (s_sent (n_server s))"

section \<open>Steps\<close>

text \<open>A command is recorded: a line that was typed, or an empty one to fill the input up.\<close>

definition session_type :: "allocator \<Rightarrow> byte list \<Rightarrow> byte list \<Rightarrow> session \<Rightarrow> session res" where
  "session_type alc m rest s =
     rbind (rw_append alc (of_nat (length m)) (m @ rest) (n_input s)) (\<lambda>rw.
     Inr (s\<lparr>n_input := rw, n_typed := n_typed s @ [m]\<rparr>))"

text \<open>A simulation starts again: the logs are read from their start, by the players there are now.\<close>

definition session_restart :: "session \<Rightarrow> session" where
  "session_restart s =
     s\<lparr>n_game := map (\<lambda>rw. rw\<lparr>rw_read := offset_zero\<rparr>) (n_game s), n_players := game_players (n_game s),
       n_executed := []\<rparr>"

definition session_sync ::
  "allocator \<Rightarrow> (int \<Rightarrow> u16 \<Rightarrow> poll_out) \<Rightarrow> (byte list \<Rightarrow> write_out) \<Rightarrow> byte list \<Rightarrow> u32 \<Rightarrow>
   session \<Rightarrow> session res"
where
  "session_sync alc kpoll kwrite chunk target s =
     rbind (connection_sync kpoll (Read_ok chunk) kwrite alc target
              (n_input s) (n_game s) (n_conn s)) (\<lambda>(st, input, game, c).
     let s1 = s\<lparr>n_input := input, n_game := game, n_conn := c, n_down := n_down s + length chunk\<rparr> in
     Inr (case st of
            CONN_OK \<Rightarrow> s1
          | CONN_CHANGE \<Rightarrow> session_restart s1
          | _ \<Rightarrow> s1\<lparr>n_ended := True\<rparr>))"

definition session_serve :: "byte list \<Rightarrow> session \<Rightarrow> session res" where
  "session_serve chunk s =
     rbind (server_round (\<lambda>bs. bs) readable (Read_ok chunk) (n_server s)) (\<lambda>sv.
     Inr (s\<lparr>n_server := sv, n_up := n_up s + length chunk\<rparr>))"

text \<open>The commands of a frame, as the interpreter is given them.\<close>

definition frame_commands :: "frame_t \<Rightarrow> byte list list" where
  "frame_commands f = map (\<lambda>(off, n). take n (drop off (fr_buffer f))) (fr_command f)"

definition session_turn :: "session \<Rightarrow> session res" where
  "session_turn s =
     rbind (command_frame (n_players s) (n_game s) (n_buffer s)) (\<lambda>(fr, rws).
     case fr of
       None \<Rightarrow> Inl CrashCall
     | Some f \<Rightarrow> Inr (s\<lparr>n_game := rws, n_buffer := fr_buffer f,
                       n_executed := n_executed s @ frame_commands f\<rparr>))"

text \<open>
  Commands are lines without NUL that fit into a frame of the receive buffer, and all of them together
  stay below the limit of a record.
\<close>

definition typed_ok :: "byte list list \<Rightarrow> bool" where
  "typed_ok ts \<longleftrightarrow>
     (\<forall>m \<in> set ts. nul_free m \<and> length m + 9 \<le> receive_size) \<and> length (encode 0 ts) + 4096 \<le> log_limit"

text \<open>The kernel takes the bytes of a write as a whole, and does not answer EAGAIN.\<close>

definition whole_writes :: "(byte list \<Rightarrow> write_out) \<Rightarrow> bool" where
  "whole_writes kwrite \<longleftrightarrow> (\<forall>bs. kwrite bs = Write_ok (length bs))"

lemma whole_writes_ok: "whole_writes (\<lambda>bs. Write_ok (length bs))"
  by (simp add: whole_writes_def)

text \<open>
  The sockets deliver in order, in any pieces that the reader has room for, and take whole writes;
  a target is never ahead of the input, because the input is filled up first; a turn is taken when
  \<open>turn_nearest\<close> is not zero, whatever the state of the loop; a simulation may be restarted at any time.
\<close>

inductive session_step :: "allocator \<Rightarrow> session \<Rightarrow> session res \<Rightarrow> bool" for alc where
  type_line: "typed_ok (n_typed s @ [m]) \<Longrightarrow> session_step alc s (session_type alc m rest s)"
| sync_receive: "unat target \<le> length (n_typed s) \<Longrightarrow> down s = chunk @ rest \<Longrightarrow>
    length chunk \<le> receive_size - nat (c_used (n_conn s)) \<Longrightarrow> whole_writes kwrite \<Longrightarrow>
    session_step alc s (session_sync alc input_ready kwrite chunk target s)"
| sync_send: "unat target \<le> length (n_typed s) \<Longrightarrow> whole_writes kwrite \<Longrightarrow>
    session_step alc s (session_sync alc output_ready kwrite [] target s)"
| serve: "up s = chunk @ rest \<Longrightarrow> chunk \<noteq> [] \<Longrightarrow>
    length chunk \<le> server_recv_max - unat (s_used (n_server s)) \<Longrightarrow>
    session_step alc s (session_serve chunk s)"
| turn: "turn_nearest (command_preview (n_players s) (n_game s) lp) \<noteq> 0 \<Longrightarrow>
    session_step alc s (session_turn s)"
| restart: "session_step alc s (Inr (session_restart s))"

text \<open>
  The states and faults that can be reached from the start: the socket pair \<open>a\<close>, \<open>b\<close> is made, the thread
  is started, and the input gets its record.
\<close>

inductive session_reach :: "allocator \<Rightarrow> session res \<Rightarrow> bool" for alc where
  start: "connection_init None (Some (a, b)) gai sock conn [] t None conn_start = Inr (ok, t', Some sv, c) \<Longrightarrow>
    record_alloc alc = Inr r \<Longrightarrow> session_reach alc (Inr (session_start r sv c))"
| step: "session_reach alc (Inr s) \<Longrightarrow> session_step alc s r \<Longrightarrow> session_reach alc r"

section \<open>Streams\<close>

text \<open>What is finished in a part of the stream are the first of its messages.\<close>

lemma finished_prefix:
  assumes "\<forall>m \<in> set ms. c \<notin> set m"
  shows "finished c (take u (encode c ms)) = take (length (finished c (take u (encode c ms)))) ms"
proof -
  have "ms = finished c (encode c ms)" using complete_encode [OF assms, of "[]"] by simp
  also have "\<dots> = finished c (take u (encode c ms) @ drop u (encode c ms))" by simp
  finally show ?thesis by (metis append_eq_conv_conj complete_append)
qed

lemma pending_bound:
  "\<forall>m \<in> set ms. c \<notin> set m \<and> length m \<le> b \<Longrightarrow> length (pending c (take u (encode c ms))) \<le> b"
proof (induction ms arbitrary: u)
  case (Cons m ms)
  show ?case
  proof (cases "u \<le> length m")
    case True
    then have "take u (encode c (m # ms)) = take u m" by simp
    moreover have "c \<notin> set (take u m)" using Cons.prems by (auto dest: in_set_takeD)
    ultimately show ?thesis using Cons.prems by simp
  next
    case False
    then have "take u (encode c (m # ms)) = m @ c # take (u - Suc (length m)) (encode c ms)"
      by (simp add: take_Cons' Suc_diff_Suc)
    then show ?thesis using Cons by simp
  qed
qed simp

section \<open>Invariant\<close>

text \<open>The messages the server has completed.\<close>

definition served :: "session \<Rightarrow> byte list list" where
  "served s = finished 0 (take (n_up s) (c_sent (n_conn s)))"

text \<open>
  Of the commands typed, \<open>k\<close> have been sent and \<open>d\<close> have arrived in the record of player 0, of which \<open>e\<close>
  have been executed. What has been served and has not arrived is in the client's buffer and in the
  socket, in frames.
\<close>

definition in_flight :: "session \<Rightarrow> nat \<Rightarrow> bool" where
  "in_flight s d \<longleftrightarrow>
     (\<exists>bs. holds_bytes (n_conn s) bs \<and> bs @ down s = pframes (map (Pair 0) (drop d (served s))))"

definition host :: "'a \<Rightarrow> 'a \<Rightarrow> nat \<Rightarrow> 'a" where
  "host x y p = (if p = 0 then x else y)"

lemma host_simps [simp]: "host x y 0 = x" "p \<noteq> 0 \<Longrightarrow> host x y p = y" "host x x = (\<lambda>_. x)"
  by (auto simp: host_def)

definition recorded :: "session \<Rightarrow> nat \<Rightarrow> nat \<Rightarrow> bool" where
  "recorded s d e \<longleftrightarrow>
     players_log (n_game s) (host (take d (n_typed s)) []) (host e 0) \<and>
     (\<forall>p. joined (n_game s) p \<longrightarrow> p = 0) \<and>
     (\<not> joined (n_game s) 0 \<longrightarrow>
        d = 0 \<and> n_game s ! 0 = \<lparr>rw_rec = None, rw_read = offset_zero, rw_write = offset_zero\<rparr>) \<and>
     n_players s = (if joined (n_game s) 0 then 1 else 0) \<and>
     n_executed s = take e (n_typed s) \<and> e \<le> d"

definition session_at :: "session \<Rightarrow> nat \<Rightarrow> nat \<Rightarrow> nat \<Rightarrow> bool" where
  "session_at s k d e \<longleftrightarrow>
     typed_ok (n_typed s) \<and> rw_log (n_input s) (n_typed s) k \<and>
     c_sent (n_conn s) = encode 0 (take k (n_typed s)) \<and> n_up s \<le> length (c_sent (n_conn s)) \<and>
     server_inv (take (n_up s) (c_sent (n_conn s))) (n_server s) \<and> n_down s \<le> length (s_sent (n_server s)) \<and>
     d \<le> length (served s) \<and> in_flight s d \<and> recorded s d e \<and>
     \<not> disconnected (client_ep (n_conn s)) \<and> length (n_buffer s) = FRAME_BUF_LEN \<and> \<not> n_ended s"

lemma session_atD:
  assumes "session_at s k d e"
  shows "typed_ok (n_typed s)" and "rw_log (n_input s) (n_typed s) k"
    and "c_sent (n_conn s) = encode 0 (take k (n_typed s))" and "n_up s \<le> length (c_sent (n_conn s))"
    and "server_inv (take (n_up s) (c_sent (n_conn s))) (n_server s)"
    and "n_down s \<le> length (s_sent (n_server s))" and "d \<le> length (served s)" and "in_flight s d"
    and "recorded s d e" and "\<not> disconnected (client_ep (n_conn s))"
    and "length (n_buffer s) = FRAME_BUF_LEN" and "\<not> n_ended s"
  using assms unfolding session_at_def by blast+

lemma typed_nul_free: "typed_ok ts \<Longrightarrow> \<forall>m \<in> set ts. 0 \<notin> set m"
  by (auto simp: typed_ok_def nul_free_def)

lemma served_prefix:
  assumes "session_at s k d e"
  shows "served s = take (length (served s)) (n_typed s)" and "length (served s) \<le> k"
proof -
  have ok: "\<forall>m \<in> set (take k (n_typed s)). 0 \<notin> set m"
    using assms typed_nul_free by (auto simp: session_at_def dest: in_set_takeD)
  have "served s = take (length (served s)) (take k (n_typed s))"
    using finished_prefix [OF ok, of "n_up s"] assms by (simp add: served_def session_at_def)
  moreover from this have "length (served s) \<le> length (take k (n_typed s))"
    by (metis length_take min.cobounded1 min.absorb_iff2)
  ultimately show "served s = take (length (served s)) (n_typed s)" "length (served s) \<le> k"
    by (simp_all add: min_absorb1 min_def split: if_splits)
qed

lemma delivered_le: "session_at s k d e \<Longrightarrow> d \<le> length (n_typed s)"
proof -
  assume at: "session_at s k d e"
  then have "d \<le> length (served s)" by (simp add: session_at_def)
  also have "length (served s) \<le> k" by (rule served_prefix [OF at])
  also have "k \<le> length (n_typed s)" using at by (auto simp: session_at_def rw_log_def)
  finally show ?thesis .
qed

section \<open>Every step keeps the invariant\<close>

lemma session_type_at:
  assumes "session_at s k d e" and "typed_ok (n_typed s @ [m])" and "\<And>n. alc n \<noteq> None"
  shows "\<exists>s'. session_type alc m rest s = Inr s' \<and> session_at s' k d e"
proof -
  have log: "rw_log (n_input s) (n_typed s) k" using assms(1) by (simp add: session_at_def)
  then have k: "k \<le> length (n_typed s)" by (auto simp: rw_log_def)
  have d: "d \<le> length (n_typed s)" by (rule delivered_le [OF assms(1)])
  have "log_fits (n_typed s) m"
    using assms(2) by (simp add: typed_ok_def log_fits_def receive_size_def)
  then obtain rw where rw: "rw_append alc (of_nat (length m)) (m @ rest) (n_input s) = Inr rw"
    "rw_log rw (n_typed s @ [m]) k"
    using rw_append_log [where alc = alc, OF log _ assms(3)] by blast
  let ?s = "s\<lparr>n_input := rw, n_typed := n_typed s @ [m]\<rparr>"
  have "session_at ?s k d e"
    using assms(1,2) rw(2) k d
    by (auto simp: session_at_def served_def in_flight_def down_def recorded_def)
  then show ?thesis using rw(1) by (simp add: session_type_def)
qed

lemma rw_log_reset: "rw_log rw ms k \<Longrightarrow> rw_log (rw\<lparr>rw_read := offset_zero\<rparr>) ms 0"
  by (auto simp: rw_log_def offset_at_def offset_zero_def)

lemma game_players_one:
  assumes "length game = max_player" and "\<forall>p. joined game p \<longrightarrow> p = 0"
  shows "game_players game = (if joined game 0 then 1 else 0)"
proof -
  obtain a b c d where g: "game = [a, b, c, d]"
    using assms(1) by (auto simp: max_player_def numeral_eq_Suc length_Suc_conv)
  have "\<not> joined game 1" "\<not> joined game 2" "\<not> joined game 3" using assms(2) by fastforce+
  then have "rw_rec b = None" "rw_rec c = None" "rw_rec d = None"
    by (simp_all add: joined_def g max_player_def)
  then show ?thesis by (simp add: g game_players_def joined_def max_player_def)
qed

lemma session_restart_at:
  assumes "session_at s k d e"
  shows "session_at (session_restart s) k d 0"
proof -
  have rec: "recorded s d e" using assms by (simp add: session_at_def)
  then have len: "length (n_game s) = max_player" by (simp add: recorded_def players_log_def)
  let ?g = "map (\<lambda>rw. rw\<lparr>rw_read := offset_zero\<rparr>) (n_game s)"
  have nth: "?g ! p = (n_game s ! p)\<lparr>rw_read := offset_zero\<rparr>" if "p < max_player" for p
    using that len by simp
  have joined: "joined ?g p = joined (n_game s) p" for p
    using nth [of p] by (auto simp: joined_def)
  have "players_log ?g (host (take d (n_typed s)) []) (host 0 0)"
    unfolding players_log_def
  proof (intro conjI allI impI)
    fix p assume p: "p < max_player"
    then have "rw_rec (n_game s ! p) = None \<or>
        rw_log (n_game s ! p) (host (take d (n_typed s)) [] p) (host e 0 p)"
      using rec by (simp add: recorded_def players_log_def)
    then show "rw_rec (?g ! p) = None \<or>
        rw_log (?g ! p) (host (take d (n_typed s)) [] p) (host 0 0 p)"
      using nth [OF p] rw_log_reset by auto
  qed (simp add: len)
  moreover have "\<not> joined (n_game s) 0 \<Longrightarrow> ?g ! 0 = n_game s ! 0"
    using rec nth [of 0] by (simp add: recorded_def max_player_def)
  ultimately have "recorded (session_restart s) d 0"
    using rec game_players_one [OF len] joined
    by (simp add: recorded_def session_restart_def)
  then show ?thesis
    using assms by (auto simp: session_at_def session_restart_def served_def in_flight_def down_def)
qed

text \<open>The server's room for the next bytes is what its buffer has left.\<close>

lemma server_room:
  assumes "server_inv bs sv"
  shows "length (pending 0 bs) = unat (s_used sv)"
proof -
  have "unat (s_used sv) \<le> length (s_buf sv)" and take: "take (unat (s_used sv)) (s_buf sv) = pending 0 bs"
    using assms by (simp_all add: server_inv_def)
  then show ?thesis by (simp flip: take)
qed

lemma session_serve_at:
  assumes "session_at s k d e" and "up s = chunk @ rest" and "chunk \<noteq> []"
    and "length chunk \<le> server_recv_max - unat (s_used (n_server s))"
  shows "\<exists>s'. session_serve chunk s = Inr s' \<and> session_at s' k d e \<and> n_typed s' = n_typed s \<and> up s' = rest"
proof -
  let ?sent = "c_sent (n_conn s)" and ?bs = "take (n_up s) (c_sent (n_conn s))"
  let ?u = "n_up s + length chunk"
  have inv: "server_inv ?bs (n_server s)" "n_up s \<le> length ?sent"
    by (rule session_atD [OF assms(1)])+
  have bs: "take ?u ?sent = ?bs @ chunk" "drop ?u ?sent = rest" "?u \<le> length ?sent"
  proof -
    have "?sent = ?bs @ chunk @ rest" using assms(2) by (metis append_take_drop_id up_def)
    moreover have "length ?bs = n_up s" using inv(2) by simp
    ultimately show "take ?u ?sent = ?bs @ chunk" "drop ?u ?sent = rest" "?u \<le> length ?sent"
      by (metis append_assoc append_eq_conv_conj length_append le_add1)+
  qed
  have "length (pending 0 ?bs) + length chunk \<le> server_recv_max"
    using server_room [OF inv(1)] inv(1) assms(4) unfolding server_inv_def by linarith
  then obtain sv where sv: "server_round (\<lambda>bs. bs) readable (Read_ok chunk) (n_server s) = Inr sv"
    "server_inv (?bs @ chunk) sv"
    using server_round_inv [OF refl inv(1) _ assms(3)] by blast
  let ?s = "s\<lparr>n_server := sv, n_up := ?u\<rparr>"
  have served: "served ?s = served s @ finished 0 (pending 0 ?bs @ chunk)"
    using bs(1) by (simp add: served_def complete_append [of 0 ?bs])
  have sent: "s_sent (n_server s) = frames (served s)" "s_sent sv = frames (served ?s)"
    using inv(1) sv(2) bs(1) by (simp_all add: server_inv_def served_def)
  have le: "n_down s \<le> length (s_sent (n_server s))" "d \<le> length (served s)"
    by (rule session_atD [OF assms(1)])+
  then have "down ?s = down s @ frames (finished 0 (pending 0 ?bs @ chunk))"
    using sent served by (simp add: down_def)
  then have "in_flight ?s d"
    using session_atD(8) [OF assms(1)] le(2) served by (auto simp: in_flight_def frames_pframes)
  moreover have "n_down s \<le> length (s_sent sv)" using le(1) sent served by simp
  moreover have "recorded ?s d e" using session_atD(9) [OF assms(1)] by (simp add: recorded_def)
  moreover have "d \<le> length (served ?s)" using le(2) served by simp
  ultimately have "session_at ?s k d e"
    using session_atD [OF assms(1)] sv(2) bs(1,3) unfolding session_at_def by simp
  then show ?thesis using sv(1) bs(2) by (simp add: session_serve_def up_def)
qed

lemma session_turn_at:
  assumes "session_at s k d e" and "turn_nearest (command_preview (n_players s) (n_game s) lp) \<noteq> 0"
  shows "\<exists>s'. session_turn s = Inr s' \<and> n_typed s' = n_typed s \<and>
    session_at s' k d (if joined (n_game s) 0 then Suc e else e) \<and> joined (n_game s') 0 = joined (n_game s) 0"
proof -
  have rec: "recorded s d e" and ok: "typed_ok (n_typed s)" and buf: "length (n_buffer s) = FRAME_BUF_LEN"
    using assms(1) by (simp_all add: session_at_def)
  have len: "length (n_game s) = 4" using rec by (simp add: recorded_def players_log_def max_player_def)
  show ?thesis
  proof (cases "joined (n_game s) 0")
    case False
    then have "n_players s = 0" using rec by (simp add: recorded_def)
    then have "session_turn s = Inr s"
      by (simp add: session_turn_def command_frame_def frame_commands_def)
    then show ?thesis using False assms(1) len by auto
  next
    case True
    then have one: "n_players s = 1" using rec by (simp add: recorded_def)
    have log: "rw_log (n_game s ! 0) (take d (n_typed s)) e"
      using True rec by (fastforce simp: recorded_def players_log_def max_player_def joined_def dest: spec [of _ 0])
    have d: "d \<le> length (n_typed s)" by (rule delivered_le [OF assms(1)])
    have "\<not> (\<exists>rw \<in> set (take 1 (n_game s)). command_count (rw_write rw) - command_count (rw_read rw) = 0)"
      using assms(2) by (simp add: one command_preview_def preview_nearest_zero)
    moreover have "set (take 1 (n_game s)) = {n_game s ! 0}" using len by (cases "n_game s") auto
    ultimately have "e \<noteq> d" using backlog(2) [OF log] d by simp
    then have e: "e < d" using rec by (simp add: recorded_def)
    let ?m = "n_typed s ! e"
    have logs: "logs_at (n_game s) (\<lambda>_. take d (n_typed s)) (\<lambda>_. e) 1"
      using log len by (simp add: logs_at_def)
    have cmd: "[?m] = next_commands (\<lambda>_. take d (n_typed s)) (\<lambda>_. e) 1"
      using e by (simp add: next_commands_def)
    have "length ?m + 9 \<le> 4096"
      using ok e d by (simp add: typed_ok_def receive_size_def)
    then have fit: "length (encode 0 [?m]) \<le> FRAME_BUF_LEN" by (simp add: FRAME_BUF_LEN_def)
    obtain buf' rws' where f: "command_frame 1 (n_game s) (n_buffer s) =
        Inr (Some \<lparr>fr_buffer = buf', fr_command = places 0 [?m]\<rparr>, rws')"
      "length buf' = FRAME_BUF_LEN" "take (length (encode 0 [?m])) buf' = encode 0 [?m]"
      "logs_at rws' (\<lambda>_. take d (n_typed s)) (\<lambda>_. Suc e) 1" "length rws' = length (n_game s)"
      "\<forall>i \<ge> 1. rws' ! i = n_game s ! i"
      using command_frame_spec(1) [OF logs _ buf cmd fit] e d by auto
    have "take (length ?m) buf' = ?m"
      using arg_cong [OF f(3), of "take (length ?m)"] by simp
    then have cmds: "frame_commands \<lparr>fr_buffer = buf', fr_command = places 0 [?m]\<rparr> = [?m]"
      by (simp add: frame_commands_def)
    let ?s = "s\<lparr>n_game := rws', n_buffer := buf', n_executed := n_executed s @ [?m]\<rparr>"
    have log': "rw_log (rws' ! 0) (take d (n_typed s)) (Suc e)" using f(4) by (simp add: logs_at_def)
    have others: "rws' ! p = n_game s ! p" if "p \<noteq> 0" for p using f(6) that by simp
    have joined: "joined rws' p = joined (n_game s) p" for p
      using True log' others [of p] by (cases "p = 0") (auto simp: joined_def rw_log_def)
    have "players_log rws' (host (take d (n_typed s)) []) (host (Suc e) 0)"
      unfolding players_log_def
    proof (intro conjI allI impI)
      show "rw_rec (rws' ! p) = None \<or> rw_log (rws' ! p) (host (take d (n_typed s)) [] p) (host (Suc e) 0 p)"
        if "p < max_player" for p
        using rec that log' others [of p] by (cases "p = 0") (auto simp: recorded_def players_log_def)
    qed (simp add: f(5) len max_player_def)
    moreover have "n_executed s @ [?m] = take (Suc e) (n_typed s)"
      using rec e d by (simp add: recorded_def take_Suc_conv_app_nth)
    ultimately have "recorded ?s d (Suc e)"
      using rec True joined e by (simp add: recorded_def)
    then have "session_at ?s k d (Suc e)"
      using assms(1) f(2) by (auto simp: session_at_def served_def in_flight_def down_def)
    then show ?thesis using f(1) cmds True joined one len by (auto simp: session_turn_def)
  qed
qed

section \<open>The client's part\<close>

text \<open>What \<open>poll\<close> and \<open>read\<close> answer: bytes to read, or room to write only.\<close>

definition polled :: "(int \<Rightarrow> u16 \<Rightarrow> poll_out) \<Rightarrow> byte list \<Rightarrow> bool" where
  "polled kpoll chunk \<longleftrightarrow> kpoll = input_ready \<or> kpoll = output_ready \<and> chunk = []"

lemma client_io:
  assumes "polled kpoll chunk" and "\<not> disconnected (client_ep c)" and "holds_bytes c bs"
    and "length chunk \<le> receive_size - nat (c_used c)"
  shows "\<exists>c1. connection_io kpoll (Read_ok chunk) c = Inr (True, c1) \<and> holds_bytes c1 (bs @ chunk) \<and>
    \<not> disconnected (client_ep c1) \<and> c_sent c1 = c_sent c"
proof (cases "kpoll = input_ready")
  case True
  have "length bs + length chunk \<le> receive_size" using assms(3,4) by (auto simp: holds_bytes_def)
  from input_ready_io [OF assms(2,3) this] show ?thesis using True by blast
next
  case False
  then have "kpoll = output_ready" "chunk = []" using assms(1) by (simp_all add: polled_def)
  then show ?thesis
    using output_ready_io [OF assms(2), of "Read_ok chunk"] assms(3) by (auto simp: holds_bytes_def)
qed

lemma sync_loop_to:
  assumes "rw_log input ms k" and "unat target \<le> length ms" and "\<And>bs. kwrite bs = Write_ok (length bs)"
  shows "\<exists>input'. sync_loop (Suc (unat (target - command_count (rw_read input)))) kwrite target input c =
      Inr (CONN_OK, input', c\<lparr>c_sent := c_sent c @ encode 0 (drop k (take (unat target) ms))\<rparr>) \<and>
    rw_log input' ms (max k (unat target))"
proof (cases "k \<le> unat target")
  case True
  have "unat (target - command_count (rw_read input)) = unat target - k"
    using rw_log_count [OF assms(1)] True by (subst unat_sub) (simp_all add: word_le_nat_alt)
  then show ?thesis
    using sync_loop_sends [OF assms(1) True assms(2) refl _ assms(3), of "Suc (unat target - k)" c] True
    by (simp add: max_absorb2)
next
  case False
  then have "\<not> target > command_count (rw_read input)"
    using rw_log_count [OF assms(1)] by (simp add: word_less_nat_alt)
  then show ?thesis using assms(1) False by (simp add: max_absorb1)
qed

lemma sent_grows:
  assumes "c = encode 0 (take k ts)"
  shows "c @ encode 0 (drop k (take t ts)) = encode 0 (take (max k t) ts)"
proof -
  have "take (max k t) ts = take k ts @ drop k (take t ts)"
    by (cases "k \<le> t") (simp_all add: max_def take_drop append_take_drop_id, metis append_take_drop_id min_absorb1 take_take)
  then show ?thesis using assms by simp
qed

text \<open>Processing either sorts all complete frames into the record of player 0, or makes that record.\<close>

lemma record_alloc_succeeds:
  assumes "\<And>n. alc n \<noteq> None"
  obtains r where "record_alloc alc = Inr r" and "rw_log (rw_new r) [] 0"
proof -
  obtain r where "record_alloc alc = Inr r" using assms [of sizeof_record] by (auto simp: record_alloc_def malloc_def)
  then show thesis using that rw_new_log assms by blast
qed

lemma client_process:
  assumes "holds_bytes c bs" and "bs @ rest = pframes (map (Pair 0) ms)" and "typed_ok (ts @ ms)"
    and "players_log game (host ts []) K" and "\<And>n. alc n \<noteq> None" and "length game = max_player"
  shows "(\<exists>j part game' c'. connection_processing alc game c = Inr (True, game', c') \<and> j \<le> length ms \<and>
      holds_bytes c' part \<and> part @ rest = pframes (map (Pair 0) (drop j ms)) \<and>
      fits_first (map (Pair 0) (drop j ms)) part \<and> players_log game' (host (ts @ take j ms) []) K \<and>
      (\<forall>p. joined game' p = joined game p) \<and> (\<not> joined game 0 \<longrightarrow> j = 0 \<and> game' = game) \<and>
      c_sent c' = c_sent c \<and> client_ep c' = client_ep c) \<or>
    (\<exists>r. \<not> joined game 0 \<and> record_alloc alc = Inr r \<and> rw_log (rw_new r) [] 0 \<and>
      connection_processing alc game c = Inr (False, game[0 := (game ! 0)\<lparr>rw_rec := Some r\<rparr>], c))"
proof -
  let ?ks = "map (Pair 0) ms :: (nat \<times> byte list) list"
  have short: "\<forall>m \<in> set ms. nul_free m \<and> length m + 9 \<le> 4096" and lim: "length (encode 0 (ts @ ms)) + 4096 \<le> log_limit"
    using assms(3) by (auto simp: typed_ok_def receive_size_def)
  then have lt: "\<forall>k \<in> set ?ks. length (snd k) < 4096" by auto
  obtain j part where j: "j \<le> length ms" "bs = pframes (take j ?ks) @ part"
    "part @ rest = pframes (drop j ?ks)" "partial_frame part" "fits_first (drop j ?ks) part"
    using prefix_of_frames [OF assms(2) lt] by auto
  have bytes: "holds_bytes c (pframes (take j ?ks) @ part)" using assms(1) j(2) by simp
  show ?thesis
  proof (cases "joined game 0")
    case True
    have msgs: "\<forall>(p, m) \<in> set (take j ?ks). joined game p \<and> nul_free m \<and> length m < 4096"
      using True short by (fastforce dest: in_set_takeD)
    have own: "from_player p (take j ?ks) = host (take j ms) [] p" for p
      by (cases "p = 0") (simp_all add: from_player_def take_map o_def filter_map)
    have "length (encode 0 (take j ms)) \<le> length (encode 0 ms)"
      by (metis append_take_drop_id le_add1 length_encode_append)
    then have fit: "\<forall>p < max_player. length (encode 0 (host ts [] p @ from_player p (take j ?ks))) + 4096 \<le> log_limit"
      using lim by (auto simp: own host_def log_limit_def)
    have "length (take j ?ks) < Suc (nat (c_used c))"
      using length_pframes_ge [of "take j ?ks"] bytes by (simp add: holds_bytes_def)
    then obtain game' c' where "connection_processing alc game c = Inr (True, game', c')" "holds_bytes c' part"
      "players_log game' (\<lambda>p. host ts [] p @ from_player p (take j ?ks)) K" "\<forall>q. joined game' q = joined game q"
      "c_sent c' = c_sent c" "client_ep c' = client_ep c"
      using processing_loop_frames [where alc = alc, OF bytes j(4) assms(4) msgs fit assms(5)]
      unfolding connection_processing_def by blast
    moreover have "(\<lambda>p. host ts [] p @ from_player p (take j ?ks)) = host (ts @ take j ms) []"
      by (simp add: own fun_eq_iff host_def)
    ultimately show ?thesis using True j(1,3,5) by (auto simp: drop_map)
  next
    case False
    then have none: "rw_rec (game ! 0) = None" by (simp add: joined_def max_player_def)
    show ?thesis
    proof (cases "j = 0")
      case True
      then have "holds_bytes c part" using bytes by simp
      then have "connection_processing alc game c = Inr (True, game, c)" using j(4) by (rule holds_bytes_partial)
      then show ?thesis
        using True \<open>holds_bytes c part\<close> j(3,5) assms(4) False
        by (intro disjI1 exI [of _ 0] exI [of _ part] exI [of _ game] exI [of _ c]) simp
    next
      case change: False
      then obtain m ms' where ms: "ms = m # ms'" using j(1) by (cases ms) auto
      then have front: "holds_bytes c (pframe (0, m) @ (pframes (take (j - 1) (map (Pair 0) ms')) @ part))"
        using bytes change by (cases j) auto
      obtain r where r: "record_alloc alc = Inr r" "rw_log (rw_new r) [] 0"
        using record_alloc_succeeds [of alc] assms(5) by blast
      have "length m < 4096" using short ms by simp
      then show ?thesis
        using connection_new_player [OF front _ _ none r(1)] False r by (auto simp: max_player_def)
    qed
  qed
qed

lemma joined_after_change:
  assumes "length game = max_player" and "\<forall>p. joined game p \<longrightarrow> p = 0"
    and "game ! 0 = \<lparr>rw_rec = None, rw_read = offset_zero, rw_write = offset_zero\<rparr>" and "rw_log (rw_new r) [] 0"
  defines "game' \<equiv> game[0 := (game ! 0)\<lparr>rw_rec := Some r\<rparr>]"
  shows "joined game' 0" and "\<forall>p. joined game' p \<longrightarrow> p = 0" and "players_log game' (host [] []) (host 0 0)"
proof -
  have len: "0 < length game" "length game = 4" using assms(1) by (simp_all add: max_player_def)
  have zero: "game' ! 0 = rw_new r" using len assms(3) by (simp add: game'_def rw_new_def)
  show "joined game' 0" using zero by (simp add: joined_def max_player_def rw_new_def)
  show others: "\<forall>p. joined game' p \<longrightarrow> p = 0"
    using assms(2) by (auto simp: joined_def game'_def nth_list_update)
  show "players_log game' (host [] []) (host 0 0)"
    unfolding players_log_def
  proof (intro conjI allI impI)
    show "rw_rec (game' ! p) = None \<or> rw_log (game' ! p) (host [] [] p) (host 0 0 p)" if "p < max_player" for p
      using others that zero assms(4) by (cases "p = 0") (auto simp: joined_def)
  qed (simp add: game'_def assms(1))
qed

text \<open>
  One sync. Either nothing changes but that more is sent and delivered, and the client's buffer is left
  with a part of a frame; or the first frame makes the record of player 0 and the simulation starts again.
\<close>

definition progressed :: "session \<Rightarrow> nat \<Rightarrow> session \<Rightarrow> nat \<Rightarrow> bool" where
  "progressed s d s' d' \<longleftrightarrow>
     d \<le> d' \<and> joined (n_game s') 0 = joined (n_game s) 0 \<and> c_used (n_conn s') < int receive_size \<and>
     (down s' = [] \<longrightarrow> d' = length (served s'))"

lemma delivered_served:
  assumes "session_at s k d e" and "j \<le> length (drop d (served s))"
  shows "take d (n_typed s) @ take j (drop d (served s)) = take (d + j) (n_typed s)"
proof -
  have le: "d + j \<le> length (served s)"
    using assms(2) session_atD(7) [OF assms(1)] by simp
  then have "take (d + j) (n_typed s) = take (d + j) (served s)"
    by (subst served_prefix(1) [OF assms(1)]) (simp add: min_absorb1)
  moreover have "take d (n_typed s) = take d (served s)"
    using le by (subst served_prefix(1) [OF assms(1)]) (simp add: min_absorb1)
  ultimately show ?thesis by (simp add: take_add)
qed

lemma typed_ok_take: "typed_ok ts \<Longrightarrow> typed_ok (take n ts)"
proof -
  assume ok: "typed_ok ts"
  have "length (encode 0 (take n ts)) \<le> length (encode 0 ts)"
    by (metis append_take_drop_id le_add1 length_encode_append)
  then show ?thesis using ok by (auto simp: typed_ok_def dest: in_set_takeD)
qed

text \<open>The state after a sync: the server has not moved, and what it has read stays the same.\<close>

lemma moved_client:
  fixes input :: rw_t and game :: "rw_t list"
  assumes "session_at s k d e" and "down s = chunk @ rest" and "c_sent c = c_sent (n_conn s) @ new"
  defines "s' \<equiv> s\<lparr>n_input := input, n_game := game, n_conn := c, n_down := n_down s + length chunk\<rparr>"
  shows "down s' = rest" and "served s' = served s" and "n_down s' \<le> length (s_sent (n_server s'))"
    and "take (n_up s') (c_sent (n_conn s')) = take (n_up s) (c_sent (n_conn s))"
    and "n_up s' \<le> length (c_sent (n_conn s'))"
proof -
  note at = session_atD [OF assms(1)]
  have "drop (length chunk) (down s) = rest" using assms(2) by simp
  then show "down s' = rest" by (simp add: s'_def down_def add.commute)
  have "length chunk \<le> length (down s)" using assms(2) by simp
  then show "n_down s' \<le> length (s_sent (n_server s'))" using at(6) by (simp add: s'_def down_def)
  show *: "take (n_up s') (c_sent (n_conn s')) = take (n_up s) (c_sent (n_conn s))"
    using at(4) assms(3) by (simp add: s'_def)
  then show "served s' = served s" by (simp add: served_def)
  show "n_up s' \<le> length (c_sent (n_conn s'))" using at(4) assms(3) by (simp add: s'_def)
qed

lemma sync_delivers:
  assumes "session_at s k d e" and "down s = chunk @ rest" and "j \<le> length (drop d (served s))"
    and "holds_bytes c part" and "part @ rest = pframes (map (Pair 0) (drop j (drop d (served s))))"
    and "fits_first (map (Pair 0) (drop j (drop d (served s)))) part"
    and "players_log game (host (take (d + j) (n_typed s)) []) (host e 0)"
    and "\<forall>p. joined game p = joined (n_game s) p" and "\<not> joined (n_game s) 0 \<longrightarrow> j = 0 \<and> game = n_game s"
    and "c_sent c = encode 0 (take k' (n_typed s))" and "c_sent c = c_sent (n_conn s) @ new"
    and "rw_log input (n_typed s) k'" and "\<not> disconnected (client_ep c)"
  defines "s' \<equiv> s\<lparr>n_input := input, n_game := game, n_conn := c, n_down := n_down s + length chunk\<rparr>"
  shows "session_at s' k' (d + j) e \<and> progressed s d s' (d + j)"
proof -
  note at = session_atD [OF assms(1)]
  note moved = moved_client [where input = input and game = game, OF assms(1,2,11), folded s'_def]
  have j: "d + j \<le> length (served s)" using assms(3) at(7) by simp
  have "recorded s' (d + j) e"
    using at(9) assms(7-9) by (auto simp: recorded_def s'_def)
  moreover have "in_flight s' (d + j)"
    using assms(4,5) moved(1,2) by (auto simp: in_flight_def s'_def add.commute)
  ultimately have inv: "session_at s' k' (d + j) e"
    using at moved j assms(10,12,13) unfolding session_at_def by (simp add: s'_def)
  have part: "length part < receive_size" "rest = [] \<Longrightarrow> d + j = length (served s)"
  proof -
    have ok: "length m + 9 \<le> receive_size" if "m \<in> set (served s)" for m
      using that served_prefix(1) [OF assms(1)] at(1) by (metis in_set_takeD typed_ok_def)
    show "length part < receive_size"
    proof (cases "drop j (drop d (served s))")
      case Nil
      then show ?thesis using assms(5) by (simp add: receive_size_def)
    next
      case (Cons m ms)
      then have "m \<in> set (served s)" by (metis drop_drop in_set_dropD list.set_intros(1))
      then show ?thesis using ok assms(6) Cons by fastforce
    qed
    show "d + j = length (served s)" if "rest = []"
      using assms(5,6) j that by (cases "drop j (drop d (served s))") (auto simp: add.commute)
  qed
  have "c_used c = int (length part)" using assms(4) by (simp add: holds_bytes_def)
  then have "progressed s d s' (d + j)"
    using part moved(1,2) assms(8) by (simp add: progressed_def s'_def served_def)
  then show ?thesis using inv by simp
qed

lemma sync_changes:
  assumes "session_at s k d e" and "down s = chunk @ rest" and "\<not> joined (n_game s) 0"
    and "holds_bytes c bs" and "bs @ rest = pframes (map (Pair 0) (drop d (served s)))"
    and "rw_log (rw_new r) [] 0" and "c_sent c = c_sent (n_conn s)" and "\<not> disconnected (client_ep c)"
  defines "s1 \<equiv> s\<lparr>n_input := n_input s, n_game := (n_game s)[0 := (n_game s ! 0)\<lparr>rw_rec := Some r\<rparr>],
    n_conn := c, n_down := n_down s + length chunk\<rparr>"
  shows "session_at (session_restart s1) k 0 0 \<and> joined (n_game (session_restart s1)) 0"
proof -
  note at = session_atD [OF assms(1)]
  have "c_sent c = c_sent (n_conn s) @ []" using assms(7) by simp
  note moved = moved_client [where input = "n_input s" and
      game = "(n_game s)[0 := (n_game s ! 0)\<lparr>rw_rec := Some r\<rparr>]", OF assms(1,2) this, folded s1_def]
  have rec: "length (n_game s) = max_player" "\<forall>p. joined (n_game s) p \<longrightarrow> p = 0"
    "n_game s ! 0 = \<lparr>rw_rec = None, rw_read = offset_zero, rw_write = offset_zero\<rparr>" "d = 0"
    using at(9) assms(3) by (simp_all add: recorded_def players_log_def)
  note made = joined_after_change [OF rec(1-3) assms(6)]
  let ?s2 = "s1\<lparr>n_players := 1, n_executed := []\<rparr>"
  have same: "down ?s2 = rest" "served ?s2 = served s" "session_restart ?s2 = session_restart s1"
    using moved(1,2) by (simp_all add: down_def served_def session_restart_def)
  have "in_flight ?s2 0"
    using assms(4,5) same(1,2) rec(4) by (auto simp: in_flight_def s1_def)
  moreover have "recorded ?s2 0 0" using made by (simp add: recorded_def s1_def)
  ultimately have "session_at ?s2 k 0 0"
    using at moved assms(7,8) unfolding session_at_def by (simp add: s1_def)
  then have "session_at (session_restart ?s2) k 0 0" by (rule session_restart_at)
  moreover have "joined (n_game (session_restart ?s2)) 0"
    using made(1) rec(1) by (simp add: joined_def session_restart_def s1_def max_player_def)
  ultimately show ?thesis by (simp only: same)
qed

lemma session_sync_at:
  assumes "session_at s k d e" and "unat target \<le> length (n_typed s)" and "down s = chunk @ rest"
    and "length chunk \<le> receive_size - nat (c_used (n_conn s))" and "polled kpoll chunk" and "\<And>n. alc n \<noteq> None"
    and "whole_writes kwrite"
  shows "\<exists>s'. session_sync alc kpoll kwrite chunk target s = Inr s' \<and> n_typed s' = n_typed s \<and> down s' = rest \<and>
    n_server s' = n_server s \<and> n_up s' = n_up s \<and> served s' = served s \<and>
    ((\<exists>d'. session_at s' (max k (unat target)) d' e \<and> progressed s d s' d') \<or>
     (\<not> joined (n_game s) 0 \<and> joined (n_game s') 0 \<and> session_at s' k 0 0))"
proof -
  note at = session_atD [OF assms(1)]
  obtain bs where bs: "holds_bytes (n_conn s) bs" "bs @ down s = pframes (map (Pair 0) (drop d (served s)))"
    using at(8) by (auto simp: in_flight_def)
  obtain c1 where c1: "connection_io kpoll (Read_ok chunk) (n_conn s) = Inr (True, c1)"
    "holds_bytes c1 (bs @ chunk)" "\<not> disconnected (client_ep c1)" "c_sent c1 = c_sent (n_conn s)"
    using client_io [OF assms(5) at(10) bs(1) assms(4)] by blast
  have rest: "(bs @ chunk) @ rest = pframes (map (Pair 0) (drop d (served s)))" using bs(2) assms(3) by simp
  have full: "take d (n_typed s) @ drop d (served s) = take (length (served s)) (n_typed s)"
    using delivered_served [OF assms(1) order_refl] at(7) by simp
  have ok: "typed_ok (take d (n_typed s) @ drop d (served s))"
    unfolding full by (rule typed_ok_take [OF at(1)])
  have log: "players_log (n_game s) (host (take d (n_typed s)) []) (host e 0)" "length (n_game s) = max_player"
    using at(9) by (simp_all add: recorded_def players_log_def)
  from client_process [where alc = alc, OF c1(2) rest ok log(1) assms(6) log(2)] show ?thesis
  proof (elim disjE exE conjE)
    fix j part game' c'
    assume p: "connection_processing alc (n_game s) c1 = Inr (True, game', c')" "j \<le> length (drop d (served s))"
      "holds_bytes c' part" "part @ rest = pframes (map (Pair 0) (drop j (drop d (served s))))"
      "fits_first (map (Pair 0) (drop j (drop d (served s)))) part"
      "players_log game' (host (take d (n_typed s) @ take j (drop d (served s))) []) (host e 0)"
      "\<forall>p. joined game' p = joined (n_game s) p" "\<not> joined (n_game s) 0 \<longrightarrow> j = 0 \<and> game' = n_game s"
      "c_sent c' = c_sent c1" "client_ep c' = client_ep c1"
    obtain input' where send: "sync_loop (Suc (unat (target - command_count (rw_read (n_input s)))))
        kwrite target (n_input s) c' = Inr (CONN_OK, input',
          c'\<lparr>c_sent := c_sent c' @ encode 0 (drop k (take (unat target) (n_typed s)))\<rparr>)"
      "rw_log input' (n_typed s) (max k (unat target))"
      using sync_loop_to [where kwrite = kwrite, OF at(2) assms(2)] assms(7) unfolding whole_writes_def by blast
    define c'' where "c'' = c'\<lparr>c_sent := c_sent c' @ encode 0 (drop k (take (unat target) (n_typed s)))\<rparr>"
    have c'': "holds_bytes c'' part" "\<not> disconnected (client_ep c'')"
      "c_sent c'' = c_sent (n_conn s) @ encode 0 (drop k (take (unat target) (n_typed s)))"
      "c_sent c'' = encode 0 (take (max k (unat target)) (n_typed s))"
      using p(3,9,10) c1(3,4) sent_grows [OF at(3)] by (simp_all add: c''_def holds_bytes_def)
    let ?s = "s\<lparr>n_input := input', n_game := game', n_conn := c'', n_down := n_down s + length chunk\<rparr>"
    have "session_sync alc kpoll kwrite chunk target s = Inr ?s"
      using c1(1) p(1) send(1) by (simp add: session_sync_def connection_sync_def c''_def)
    moreover have "session_at ?s (max k (unat target)) (d + j) e \<and> progressed s d ?s (d + j)"
      using p(6) delivered_served [OF assms(1) p(2)]
      by (intro sync_delivers [OF assms(1,3) p(2) c''(1) p(4,5) _ p(7,8) c''(4,3) send(2) c''(2)]) simp
    ultimately show ?thesis
      using moved_client [where input = input' and game = game', OF assms(1,3) c''(3)] by auto
  next
    fix r
    assume p: "\<not> joined (n_game s) 0" "record_alloc alc = Inr r" "rw_log (rw_new r) [] 0"
      "connection_processing alc (n_game s) c1 = Inr (False, (n_game s)[0 := (n_game s ! 0)\<lparr>rw_rec := Some r\<rparr>], c1)"
    let ?s1 = "s\<lparr>n_input := n_input s, n_game := (n_game s)[0 := (n_game s ! 0)\<lparr>rw_rec := Some r\<rparr>],
      n_conn := c1, n_down := n_down s + length chunk\<rparr>"
    have "session_sync alc kpoll kwrite chunk target s = Inr (session_restart ?s1)"
      using c1(1) p(4) by (simp add: session_sync_def connection_sync_def)
    moreover have "c_sent c1 = c_sent (n_conn s) @ []" using c1(4) by simp
    note moved_client [where input = "n_input s" and
      game = "(n_game s)[0 := (n_game s ! 0)\<lparr>rw_rec := Some r\<rparr>]", OF assms(1,3) this]
    ultimately show ?thesis
      using sync_changes [OF assms(1,3) p(1) c1(2) rest p(3) c1(4,3)] p(1)
      by (auto simp: session_restart_def down_def served_def)
  qed
qed

section \<open>Reachable states\<close>

lemma session_start_at:
  assumes "connection_init None (Some (a, b)) gai sock conn [] t None conn_start = Inr (ok, t', Some sv, c)"
    and "record_alloc alc = Inr r" and "\<And>n. alc n \<noteq> None"
  shows "session_at (session_start r sv c) 0 0 0"
proof -
  have sv: "sv = server_start (endpoint_from_fd b)"
    and c: "c = conn_start\<lparr>client_ep := endpoint_from_fd a, server_ep := endpoint_from_fd b\<rparr>"
    using assms(1) by (simp_all add: connection_init_def network_socketpair_def server_init_def Let_def split: prod.splits)
  have ep: "\<not> disconnected (endpoint_from_fd x)" for x by (simp add: endpoint_from_fd_def endpoint_init_def)
  have "rw_log (rw_new r) [] 0" by (rule rw_new_log [OF assms(2,3)])
  moreover have "in_flight (session_start r sv c) 0"
    by (simp add: in_flight_def session_start_def c sv down_def served_def server_start_def holds_bytes_def
        conn_start_def)
  moreover have "recorded (session_start r sv c) 0 0"
    by (auto simp: recorded_def session_start_def players_log_def joined_def max_player_def)
  ultimately show ?thesis
    using ep server_inv_start [OF ep]
    by (simp add: session_at_def session_start_def typed_ok_def c sv conn_start_def log_limit_def
        server_start_def served_def)
qed

lemma session_step_at:
  assumes "session_step alc s r" and "session_at s k d e" and "\<And>n. alc n \<noteq> None"
  shows "\<exists>s' k' d' e'. r = Inr s' \<and> session_at s' k' d' e'"
  using assms(1)
proof cases
  case (type_line m rest)
  then show ?thesis using session_type_at [where alc = alc, OF assms(2) _ assms(3)] by blast
next
  case (sync_receive target chunk rest kwrite)
  then show ?thesis
    using session_sync_at [where alc = alc and kpoll = input_ready, OF assms(2) sync_receive(2,3,4) _ assms(3) sync_receive(5)]
    by (fastforce simp: polled_def)
next
  case (sync_send target kwrite)
  have "down s = [] @ down s" by simp
  then show ?thesis
    using session_sync_at [where alc = alc and kpoll = output_ready, OF assms(2) sync_send(2) _ _ _ assms(3) sync_send(3)] sync_send(1)
    by (fastforce simp: polled_def)
next
  case (serve chunk rest)
  then show ?thesis using session_serve_at [OF assms(2)] by blast
next
  case (turn lp)
  then show ?thesis using session_turn_at [OF assms(2)] by blast
next
  case restart
  then show ?thesis using session_restart_at [OF assms(2)] by blast
qed

lemma session_reach_at:
  assumes "session_reach alc r" and "\<And>n. alc n \<noteq> None"
  shows "\<exists>s k d e. r = Inr s \<and> session_at s k d e"
  using assms(1)
proof induction
  case (start a b gai sock conn t ok t' sv c r)
  then show ?case using session_start_at assms(2) by blast
next
  case (step s r)
  then show ?case using session_step_at assms(2) by blast
qed

section \<open>Nothing gets stuck\<close>

definition session_run :: "allocator \<Rightarrow> session \<Rightarrow> session \<Rightarrow> bool" where
  "session_run alc = rtranclp (\<lambda>s s'. session_step alc s (Inr s'))"

lemma run_refl [simp]: "session_run alc s s"
  by (simp add: session_run_def)

lemma run_step: "session_step alc s (Inr s') \<Longrightarrow> session_run alc s' s'' \<Longrightarrow> session_run alc s s''"
  unfolding session_run_def by (rule converse_rtranclp_into_rtranclp)

lemma run_trans: "session_run alc s s' \<Longrightarrow> session_run alc s' s'' \<Longrightarrow> session_run alc s s''"
  unfolding session_run_def by (rule rtranclp_trans)

lemma run_reach: "session_run alc s s' \<Longrightarrow> session_reach alc (Inr s) \<Longrightarrow> session_reach alc (Inr s')"
  unfolding session_run_def by (induction rule: rtranclp_induct) (auto intro: session_reach.step)

text \<open>The client has processed all it has received.\<close>

definition settled :: "session \<Rightarrow> nat \<Rightarrow> bool" where
  "settled s d \<longleftrightarrow> c_used (n_conn s) < int receive_size \<and> (down s = [] \<longrightarrow> d = length (served s))"

lemma progressed_settled: "progressed s d s' d' \<Longrightarrow> settled s' d'"
  by (simp add: progressed_def settled_def)

text \<open>At most two syncs do it: the first may make the player's record and start the simulation again.\<close>

lemma run_sync:
  fixes target :: u32
  assumes "session_at s k d e" and "unat target \<le> length (n_typed s)" and "down s = chunk @ rest"
    and "length chunk \<le> receive_size - nat (c_used (n_conn s))" and "\<And>n. alc n \<noteq> None"
  shows "\<exists>s' d' e'. session_run alc s s' \<and> session_at s' (max k (unat target)) d' e' \<and> settled s' d' \<and>
    n_typed s' = n_typed s \<and> down s' = rest \<and> n_server s' = n_server s \<and> n_up s' = n_up s"
proof -
  let ?w = "\<lambda>bs :: byte list. Write_ok (length bs)"
  obtain s1 where s1: "session_sync alc input_ready ?w chunk target s = Inr s1" "n_typed s1 = n_typed s"
    "down s1 = rest" "n_server s1 = n_server s" "n_up s1 = n_up s"
    "(\<exists>d'. session_at s1 (max k (unat target)) d' e \<and> progressed s d s1 d') \<or>
     (joined (n_game s1) 0 \<and> session_at s1 k 0 0)"
    using session_sync_at [where alc = alc and kpoll = input_ready, OF assms(1-4) _ assms(5) whole_writes_ok]
    by (auto simp: polled_def)
  have 1: "session_step alc s (Inr s1)" using session_step.sync_receive [OF assms(2-4) whole_writes_ok, of alc] s1(1) by simp
  from s1(6) show ?thesis
  proof (elim disjE exE conjE)
    fix d' assume "session_at s1 (max k (unat target)) d' e" "progressed s d s1 d'"
    then show ?thesis using s1 run_step [OF 1 run_refl] progressed_settled by blast
  next
    assume at: "joined (n_game s1) 0" "session_at s1 k 0 0"
    have t: "unat target \<le> length (n_typed s1)" "down s1 = [] @ rest" using assms(2) s1(2,3) by simp_all
    obtain s2 d' where s2: "session_sync alc output_ready ?w [] target s1 = Inr s2" "n_typed s2 = n_typed s1"
      "down s2 = rest" "n_server s2 = n_server s1" "n_up s2 = n_up s1"
      "session_at s2 (max k (unat target)) d' 0" "progressed s1 0 s2 d'"
      using session_sync_at [where alc = alc and kpoll = output_ready, OF at(2) t _ _ assms(5) whole_writes_ok] at(1)
      by (auto simp: polled_def)
    have "session_step alc s1 (Inr s2)" using session_step.sync_send [OF t(1) whole_writes_ok, of alc] s2(1) by simp
    from run_step [OF 1 run_step [OF this run_refl]] show ?thesis
      using s1(2,4,5) s2(2-7) progressed_settled by metis
  qed
qed

lemma run_serve:
  assumes "session_at s k d e"
  shows "\<exists>s'. session_run alc s s' \<and> session_at s' k d e \<and> n_typed s' = n_typed s \<and> up s' = []"
  using assms
proof (induction "up s" arbitrary: s)
  case Nil
  then show ?case using run_refl by metis
next
  case (Cons x xs)
  have up: "up s = [x] @ xs" using Cons.hyps(2) by simp
  have "\<forall>m \<in> set (take k (n_typed s)). 0 \<notin> set m \<and> length m \<le> 4087"
    using session_atD(1) [OF Cons.prems] by (auto simp: typed_ok_def nul_free_def receive_size_def dest: in_set_takeD)
  from pending_bound [OF this] have "length (pending 0 (take (n_up s) (c_sent (n_conn s)))) \<le> 4087"
    using session_atD(3) [OF Cons.prems] by simp
  then have "length [x] \<le> server_recv_max - unat (s_used (n_server s))"
    using server_room [OF session_atD(5) [OF Cons.prems]] by (simp add: server_recv_max_def)
  note step = session_step.serve [OF up _ this, of alc] and serve = session_serve_at [OF Cons.prems up _ this]
  then obtain s1 where s1: "session_serve [x] s = Inr s1" "session_at s1 k d e" "n_typed s1 = n_typed s" "up s1 = xs"
    by auto
  obtain s2 where "session_run alc s1 s2" "session_at s2 k d e" "n_typed s2 = n_typed s1" "up s2 = []"
    using Cons.hyps(1) [of s1] s1(2,4) by auto
  then show ?case using run_step [of alc s s1 s2] step s1(1,3) by auto
qed

lemma run_receive:
  assumes "session_at s k d e" and "settled s d" and "\<And>n. alc n \<noteq> None"
  shows "\<exists>s' d' e'. session_run alc s s' \<and> session_at s' k d' e' \<and> n_typed s' = n_typed s \<and>
    d' = length (served s') \<and> up s' = up s"
  using assms(1,2)
proof (induction "down s" arbitrary: s d e)
  case Nil
  then show ?case using run_refl unfolding settled_def by metis
next
  case (Cons x xs)
  have down: "down s = [x] @ xs" using Cons.hyps(2) by simp
  have room: "length [x] \<le> receive_size - nat (c_used (n_conn s))"
    using Cons.prems(2) by (auto simp: settled_def receive_size_def)
  have zero: "unat (0 :: u32) \<le> length (n_typed s)" by simp
  obtain s1 d1 e1 where s1: "session_run alc s s1" "session_at s1 k d1 e1" "settled s1 d1"
    "n_typed s1 = n_typed s" "down s1 = xs" "n_server s1 = n_server s" "n_up s1 = n_up s"
    using run_sync [where alc = alc, OF Cons.prems(1) zero down room assms(3)] by auto
  then have "up s1 = up s"
    using session_atD(3) [OF s1(2)] session_atD(3) [OF Cons.prems(1)] by (simp add: up_def)
  moreover obtain s2 d2 e2 where "session_run alc s1 s2" "session_at s2 k d2 e2" "n_typed s2 = n_typed s1"
    "d2 = length (served s2)" "up s2 = up s1"
    using Cons.hyps(1) [of s1 d1 e1] s1(2,3,5) by auto
  ultimately show ?case using run_trans [OF s1(1)] s1(4) by metis
qed

lemma run_turns:
  assumes "session_at s k d e"
  shows "\<exists>s'. session_run alc s s' \<and> session_at s' k d d \<and> n_typed s' = n_typed s"
  using assms
proof (induction "d - e" arbitrary: s e)
  case 0
  then have "e = d" using session_atD(9) [OF 0(2)] by (simp add: recorded_def)
  then show ?case using 0(2) run_refl by blast
next
  case (Suc n)
  note rec = session_atD(9) [OF Suc.prems]
  have e: "e < d" "joined (n_game s) 0" using Suc.hyps(2) rec by (auto simp: recorded_def)
  have log: "rw_log (n_game s ! 0) (take d (n_typed s)) e"
    using e(2) rec by (fastforce simp: recorded_def players_log_def max_player_def joined_def dest: spec [of _ 0])
  have len: "length (n_game s) = 4" using rec by (simp add: recorded_def players_log_def max_player_def)
  have "set (take 1 (n_game s)) = {n_game s ! 0}" using len by (cases "n_game s") auto
  moreover have "n_players s = 1" using rec e(2) by (simp add: recorded_def)
  moreover have "command_count (rw_write (n_game s ! 0)) - command_count (rw_read (n_game s ! 0)) \<noteq> 0"
    using backlog(2) [OF log] e(1) delivered_le [OF Suc.prems] by simp
  ultimately have near: "turn_nearest (command_preview (n_players s) (n_game s) (loop_start\<lparr>input_queue_max := 1\<rparr>)) \<noteq> 0"
    by (simp add: command_preview_def preview_nearest_zero loop_input_queue_max_def)
  obtain s1 where s1: "session_turn s = Inr s1" "n_typed s1 = n_typed s" "session_at s1 k d (Suc e)"
    using session_turn_at [OF Suc.prems near] e(2) by auto
  obtain s2 where "session_run alc s1 s2" "session_at s2 k d d" "n_typed s2 = n_typed s1"
    using Suc.hyps(1) [OF _ s1(3)] Suc.hyps(2) by (metis Suc_diff_Suc e(1) nat.inject)
  then show ?case using run_step [of alc s s1 s2] session_step.turn [OF near, of alc] s1(1,2) by auto
qed

lemma run_all:
  assumes "session_at s k d e" and "\<And>n. alc n \<noteq> None"
  shows "\<exists>s'. session_run alc s s' \<and> n_typed s' = n_typed s \<and> n_executed s' = n_typed s"
proof -
  let ?n = "length (n_typed s)"
  have "?n \<le> length (encode 0 (n_typed s))" by (rule length_encode_ge)
  then have "?n < 2 ^ 32" using session_atD(1) [OF assms(1)] by (simp add: typed_ok_def log_limit_def)
  then have n: "unat (of_nat ?n :: u32) = ?n" by (rule unat_of_nat32)
  have k: "k \<le> ?n" using session_atD(2) [OF assms(1)] by (auto simp: rw_log_def)
  obtain s1 d1 e1 where s1: "session_run alc s s1" "session_at s1 ?n d1 e1" "n_typed s1 = n_typed s"
    using run_sync [where alc = alc and chunk = "[]" and target = "of_nat ?n", OF assms(1) _ _ _ assms(2)]
    by (auto simp: n k max_absorb2)
  obtain s2 where s2: "session_run alc s1 s2" "session_at s2 ?n d1 e1" "n_typed s2 = n_typed s1" "up s2 = []"
    using run_serve [OF s1(2)] by blast
  obtain s3 d3 e3 where s3: "session_run alc s2 s3" "session_at s3 ?n d3 e3" "settled s3 d3" "n_typed s3 = n_typed s2"
    "n_server s3 = n_server s2" "n_up s3 = n_up s2"
    using run_sync [where alc = alc and chunk = "[]" and target = 0, OF s2(2) _ _ _ assms(2)] by auto
  have "up s3 = []"
    using s2(4) s3(6) session_atD(3) [OF s3(2)] session_atD(3) [OF s2(2)] s3(4) by (simp add: up_def)
  obtain s4 e4 where s4: "session_run alc s3 s4" "session_at s4 ?n (length (served s4)) e4"
    "n_typed s4 = n_typed s3" "up s4 = []"
    using run_receive [where alc = alc, OF s3(2,3) assms(2)] \<open>up s3 = []\<close> by auto
  have typed: "n_typed s4 = n_typed s" using s1(3) s2(3) s3(4) s4(3) by simp
  have "served s4 = finished 0 (encode 0 (n_typed s4))"
    using s4(4) session_atD(3) [OF s4(2)] typed by (simp add: served_def up_def)
  then have all: "served s4 = n_typed s4"
    using typed_nul_free [OF session_atD(1) [OF s4(2)]] complete_encode [of "n_typed s4" 0 "[]"] by simp
  obtain s5 where s5: "session_run alc s4 s5" "session_at s5 ?n ?n ?n" "n_typed s5 = n_typed s4"
    using run_turns [OF s4(2)] all typed by auto
  have "n_executed s5 = n_typed s" using session_atD(9) [OF s5(2)] s5(3) typed by (simp add: recorded_def)
  moreover have "session_run alc s s5" using s1(1) s2(1) s3(1) s4(1) s5(1) run_trans by blast
  ultimately show ?thesis using s5(3) typed by auto
qed

section \<open>Properties\<close>

text \<open>C2: In every interleaving of the client and the server thread, with writes that are taken whole and
  however the sockets cut the two streams, no step faults and the program does not end by itself. Player 0 is the only player; the
  record of player 0 holds the first \<open>d\<close> of the commands typed, and the interpreter has been given the
  first \<open>e\<close> of these, in order and each once, since the simulation started.\<close>

theorem interleavings_keep_order:
  assumes "session_reach alc r" and "\<And>n. alc n \<noteq> None"
  shows "\<exists>s d e. r = Inr s \<and> \<not> n_ended s \<and> e \<le> d \<and> d \<le> length (n_typed s) \<and>
    n_executed s = take e (n_typed s) \<and> (\<forall>p. joined (n_game s) p \<longrightarrow> p = 0) \<and>
    players_log (n_game s) (host (take d (n_typed s)) []) (host e 0)"
proof -
  obtain s k d e where s: "r = Inr s" "session_at s k d e" using session_reach_at [OF assms] by blast
  then show ?thesis
    using session_atD(9,12) [OF s(2)] delivered_le [OF s(2)] unfolding recorded_def by blast
qed

text \<open>A session in which one command is typed and executed.\<close>

lemma example_session:
  "\<exists>s. session_reach all_succeed (Inr s) \<and> n_typed s = [[97]]"
proof -
  let ?t = "\<lparr>fd_flags = (\<lambda>_. None), fd_nodelay = (\<lambda>_. False)\<rparr>"
  have init: "\<exists>ok t' sv c. connection_init None (Some (3, 4)) (\<lambda>_ _. None) (\<lambda>_. 5) None [] ?t None conn_start =
      Inr (ok, t', Some sv, c)"
    by (simp add: connection_init_def server_init_def split: prod.splits)
  have alc: "all_succeed n \<noteq> None" for n by (simp add: all_succeed_def)
  obtain r where r: "record_alloc all_succeed = Inr r" using record_alloc_succeeds [of all_succeed] alc by blast
  obtain ok t' sv c where i: "connection_init None (Some (3, 4)) (\<lambda>_ _. None) (\<lambda>_. 5) None [] ?t None conn_start =
      Inr (ok, t', Some sv, c)"
    using init by blast
  have reach: "session_reach all_succeed (Inr (session_start r sv c))"
    and at: "session_at (session_start r sv c) 0 0 0"
    using session_reach.start [OF i r] session_start_at [OF i r alc] by blast+
  let ?s = "session_start r sv c"
  have typed: "n_typed ?s = []" by (simp add: session_start_def)
  have "typed_ok (n_typed ?s @ [[97]])"
    by (simp add: typed typed_ok_def nul_free_def receive_size_def log_limit_def)
  note session_step.type_line [OF this, of all_succeed "[]"] and session_type_at [where alc = all_succeed, OF at this alc]
  then obtain s' where "session_type all_succeed [97] [] ?s = Inr s'"
    "session_step all_succeed ?s (Inr s')" by metis
  moreover from this(1) have "n_typed s' = [[97]]"
    by (auto simp: session_type_def rbind_eq_Inr session_start_def)
  ultimately show ?thesis using session_reach.step [OF reach] by blast
qed

theorem interleavings_keep_order_witness:
  "\<exists>s d e. session_reach all_succeed (Inr s) \<and> n_typed s = [[97]] \<and> n_executed s = [[97]] \<and>
    take e [[97]] = [[97 :: byte]] \<and> e \<le> d \<and> players_log (n_game s) (host (take d [[97]]) []) (host e 0)"
proof -
  obtain s where s: "session_reach all_succeed (Inr s)" "n_typed s = [[97]]" using example_session by blast
  have alc: "all_succeed n \<noteq> None" for n by (simp add: all_succeed_def)
  obtain k d e where at: "session_at s k d e" using session_reach_at [OF s(1) alc] by auto
  obtain s' where s': "session_run all_succeed s s'" "n_typed s' = [[97]]" "n_executed s' = [[97]]"
    using run_all [where alc = all_succeed, OF at alc] s(2) by auto
  have reach: "session_reach all_succeed (Inr s')" by (rule run_reach [OF s'(1) s(1)])
  from interleavings_keep_order [OF this alc] obtain d e where "e \<le> d" "n_executed s' = take e (n_typed s')"
    "players_log (n_game s') (host (take d (n_typed s')) []) (host e 0)" by auto
  then show ?thesis
    using reach s'(2,3) by (intro exI [of _ s'] exI [of _ d] exI [of _ e]) simp
qed

text \<open>C3: Nothing gets stuck or lost: from every state that can be reached, some further steps without any
  new input lead to a state in which the interpreter has been given all commands typed.\<close>

theorem all_input_executed:
  assumes "session_reach alc (Inr s)" and "\<And>n. alc n \<noteq> None"
  shows "\<exists>s'. session_run alc s s' \<and> n_typed s' = n_typed s \<and> n_executed s' = n_typed s"
proof -
  obtain k d e where "session_at s k d e" using session_reach_at [OF assms] by auto
  then show ?thesis using run_all assms(2) by blast
qed

theorem all_input_executed_witness:
  "\<exists>s s'. session_reach all_succeed (Inr s) \<and> session_run all_succeed s s' \<and> n_executed s' = [[97]]"
proof -
  obtain s where s: "session_reach all_succeed (Inr s)" "n_typed s = [[97]]" using example_session by blast
  have "all_succeed n \<noteq> None" for n by (simp add: all_succeed_def)
  from all_input_executed [OF s(1) this] show ?thesis using s by auto
qed

end
