(* ===== verification/Spec2Isabelle.thy ===== *)
theory Spec2Isabelle
  imports Loopback
begin

text \<open>
  A verification library for a small networked game console. The program loads game code from a
  shared object, exchanges the players' commands through a server, and in every frame executes one
  command of each player and then the loaded functions, so that all clients compute the same game.
  The target of the model is the one the build scripts use: x86-64 Linux, LP64, signed \<open>char\<close>, little
  endian.

  \<^bold>\<open>The program and the theories.\<close> Every theory models one file of the source; a definition has the name
  of the C function it translates, and takes and returns the variables that the function reads and
  writes as a record.

  \<^item> \<open>Prelude\<close>: C integer types, the faults of undefined behaviour, blocks of memory with
    bounds-checked accesses, C strings, streams of terminated messages, 32-bit encodings.
  \<^item> \<open>CMacro\<close> (\<^verbatim>\<open>macro.h\<close>): the value macros.
  \<^item> \<open>Record_Log\<close> (\<^verbatim>\<open>record.c\<close>): the append-only log of commands, with read and write offsets.
  \<^item> \<open>Hash\<close> (\<^verbatim>\<open>hash.c\<close>): the djb2 hash and its continuation.
  \<^item> \<open>Network\<close>, \<open>Network_Server\<close>, \<open>Connection\<close> (\<^verbatim>\<open>network.c\<close>, \<^verbatim>\<open>network_server.c\<close>,
    \<^verbatim>\<open>connection.c\<close>): end points; the thread that frames a client's bytes; the client that sends its
    input and sorts the frames it receives into the players' records.
  \<^item> \<open>Input\<close>, \<open>Notify\<close> (\<^verbatim>\<open>input.c\<close>, \<^verbatim>\<open>notify.c\<close>): lines of the standard input, and the watch on the
    directory of the loaded code.
  \<^item> \<open>Ieee\<close>, \<open>Float\<close>, \<open>Stats\<close> (\<^verbatim>\<open>float.c\<close>, \<^verbatim>\<open>stats.c\<close>): executable IEEE 754 arithmetic, conversions, and
    running statistics over any arithmetic.
  \<^item> \<open>Clock\<close>, \<open>Loop\<close> (\<^verbatim>\<open>platform_clock.c\<close>, \<^verbatim>\<open>loop.c\<close>): the clock on the time stamp counter and the pace
    of the frames.
  \<^item> \<open>Functor\<close>, \<open>Global\<close>, \<open>Dlfn\<close> (\<^verbatim>\<open>functor.c\<close>, \<^verbatim>\<open>global.c\<close>, \<^verbatim>\<open>dlfn.c\<close>): function pointers with their
    parameters, the table of variables and their operations, the symbols of the loaded object.
  \<^item> \<open>Execute\<close> (\<^verbatim>\<open>execute.c\<close>): the commands, on the record \<open>machine\<close>; \<open>Execute_Safety\<close> has its
    invariant and \<open>Commands\<close> its properties.
  \<^item> \<open>Main_Loop\<close> (\<^verbatim>\<open>main.c\<close>): the game, on the record \<open>game\<close> that holds the state of all parts; \<open>Game_Props\<close>
    and \<open>Game\<close> have its properties.
  \<^item> \<open>Loopback\<close>: the game without a remote host as a step relation \<open>session_step\<close> whose steps are the calls above,
    made by the client and by the server thread in any order.

  \<^bold>\<open>How the parts meet.\<close> \<open>game_step\<close> is one round of the loop: it polls the watch and the input with the
  callbacks of \<^verbatim>\<open>main.c\<close>, fills the input record up to the target frame, and calls \<open>connection_sync\<close>;
  \<open>game_turn\<close> then stalls, or reads one command per player into a frame (\<open>command_frame\<close>), executes
  them (\<open>execute_any\<close>) and advances the simulation (\<open>simulate\<close>, \<open>game_advance\<close>). Records are the
  interface between input, connection and game; the table of copies in \<open>machine\<close> is the interface between
  variables and loaded functions.

  \<^bold>\<open>Conventions.\<close> A computation that can fault has type \<open>'a res\<close>: \<open>Inl\<close> a fault or \<open>Inr\<close> a value, so a
  theorem that concludes with \<open>Inr\<close> says that nothing is undefined. Integers are words of their width;
  an \<open>int\<close> whose overflow would be undefined is an integer with the fault written out. Pointers into
  the program's own tables are the datatype \<open>pointer\<close>; addresses in the loaded image are words. The
  kernel, the allocator, the dynamic linker, the loaded code and the clocks are arguments, gathered
  in the records \<open>env\<close>, \<open>boot\<close> and \<open>net_env\<close> for the main loop. Uninitialised locals are arguments too, and
  so is the order in which \<open>qsort\<close> leaves elements that compare equal (\<open>sorter\<close>). Events of the watch may
  have no name, as the kernel's own notices have none. Where a theorem takes writes as whole, that is
  a premise of it or of the step relation (\<open>whole_writes\<close>).

  \<^bold>\<open>Interfaces.\<close> \<open>message_log\<close> (\<open>Record_Log\<close>): a FIFO of messages, interpreted by the string and by the
  block functions of records. \<open>name_table\<close> (\<open>Global\<close>): named slots, interpreted by the variables.
  \<open>comparator\<close> (\<open>Dlfn\<close>): a comparison function for \<open>qsort\<close>, interpreted by the two orders of symbols.

  \<^bold>\<open>What is proved.\<close>
  \<^item> Transport: records are FIFO logs; server and client reassemble commands however the streams are
    cut. In every reachable state of the loop-back game what was executed is a prefix of what was
    typed, and all of it can still be executed (\<open>Loopback\<close>; the invariant is \<open>session_at\<close>, kept by every
    step). The theorem below composes one sync, the thread and the receiving rounds as functions.
  \<^item> Game: a frame is the next command of every player, nobody runs ahead, two replicas with the same
    logs and no benchmark among the commands have the same outcome and, with the same contents of
    uninitialised locals, stay equal; the input is filled up to its target.
  \<^item> Interpreter: tokens, constants, variables, bindings of parameters and results; the invariant
    \<open>machine_wf\<close> with \<open>handles_ok\<close> is kept by all commands while the table of copies has room.
  \<^item> Loading: the tables hold exactly the exported symbols in address order, and a reload is fresh.
  \<^item> Time and numbers: pace without drift, bounds of conversions, statistics exact on the reals.
  \<^item> Faults of the code, each as a theorem that exhibits it: lost bytes after a short write, a single
    doubling of the record buffer, stale handles after a reload, the full table of copies, frames
    that crash all clients, the overflow of the benchmark, and others.

  \<^bold>\<open>Bounds and fuel.\<close> Loops whose end depends on the data are unrolled a bounded number of times and
  end in the fault \<open>Diverge\<close> when the bound is short. The callers pass a bound that suffices:
  \<open>processing_loop\<close> the bytes in the buffer, \<open>sync_loop\<close> and \<open>fill_input\<close> the missing commands,
  \<open>input_drain\<close> the size of the buffer, \<open>playback_loop\<close> the bytes of the record; the theorems about
  them conclude with \<open>Inr\<close>. \<open>dynamic_tables\<close> reads entries of the loaded image until one with tag 0 and takes
  its bound as an argument; waiting loops take the list of the readings they will see. Records are
  assumed to stay below \<open>log_limit\<close>, 2^30 bytes.

  \<^bold>\<open>Not modelled.\<close> Output to the terminal (\<open>prompt\<close>, the print functions, the report at the end of a
  simulation), thread attributes, the inline assembly of \<^verbatim>\<open>rdtsc.h\<close> and \<^verbatim>\<open>arm_counter.c\<close>, test programs,
  examples and third-party code. Two simplifications: an element of the commands' buffer that
  \<open>tokenize\<close> blanks is not read again by a later command, so \<open>execute_any\<close> does not return the buffer; and
  loaded code is taken to change its own memory only.
\<close>

lemma from_player_Pair: "from_player p (map (Pair q) ms) = (if p = q then ms else [])"
  by (induction ms) auto

text \<open>The loop-back game: the commands recorded at the client are sent by \<open>connection_sync\<close>, reach the
  server thread in whatever chunks, and come back framed in whatever pieces; after enough rounds the
  record of player 0 has grown by exactly these commands in order, and no other record has changed.\<close>

theorem loopback_delivers_input:
  assumes "rw_log input ms 0" and "unat target = length ms"
    and "players_log game L K" and "acceptable game L (map (Pair 0) ms)"
    and "holds_bytes c []" and "c_sent c = []" and "\<not> disconnected (client_ep c)"
    and "\<not> disconnected ep" and "\<And>n. alc n \<noteq> None"
    and "\<And>bs. kwrite bs = Write_ok (length bs)" and "\<And>bs. acc bs = bs"
  shows "\<exists>input' c1. connection_sync output_ready rd kwrite alc target input game c =
      Inr (CONN_OK, input', game, c1) \<and> c_sent c1 = encode 0 ms \<and>
    (\<forall>cs ns. concat cs = encode 0 ms \<longrightarrow> deliverable [] cs \<longrightarrow>
       (\<forall>n \<in> set ns. 0 < n) \<longrightarrow> length (frames ms) < length ns \<longrightarrow>
       (\<exists>s game' c2. server_routine acc (arrivals cs) (server_start ep) = Inr s \<and>
          client_rounds alc ns (s_sent s) game c1 = Inr ([], game', c2) \<and>
          players_log game' (\<lambda>p. if p = 0 then L 0 @ ms else L p) K \<and>
          (\<forall>p. joined game' p = joined game p)))"
proof -
  obtain input' c1 where sync: "connection_sync output_ready rd kwrite alc target input game c =
      Inr (CONN_OK, input', game, c1)" "c_sent c1 = encode 0 ms"
    "holds_bytes c1 []" "\<not> disconnected (client_ep c1)"
    using connection_sync_state [where alc = alc and game = game and rd = rd and kwrite = kwrite,
        OF assms(1) le0 order_refl assms(2,7,5) partial_frame_Nil assms(10)] assms(6)
    by (simp only: drop_0 take_all order_refl append_Nil) blast
  have ms: "\<forall>m \<in> set ms. nul_free m"
    using assms(4) by (auto simp: acceptable_def)
  have "\<exists>s game' c2. server_routine acc (arrivals cs) (server_start ep) = Inr s \<and>
      client_rounds alc ns (s_sent s) game c1 = Inr ([], game', c2) \<and>
      players_log game' (\<lambda>p. if p = 0 then L 0 @ ms else L p) K \<and>
      (\<forall>p. joined game' p = joined game p)"
    if cs: "concat cs = encode 0 ms" "deliverable [] cs" "\<forall>n \<in> set ns. 0 < n"
      "length (frames ms) < length ns" for cs ns
  proof -
    obtain s where s: "server_routine acc (arrivals cs) (server_start ep) = Inr s"
      "server_inv (concat cs) s"
      using server_routine_inv [OF assms(11) server_inv_start [OF assms(8)] cs(2)] by auto
    have "finished 0 (encode 0 ms) = ms"
      using ms complete_encode [of ms 0 "[]"] by (auto simp: nul_free_def)
    then have "s_sent s = pframes (map (Pair 0) ms)"
      using s(2) cs(1) by (simp add: server_inv_def frames_pframes)
    moreover have "receiving (map (Pair 0) ms) (pframes (map (Pair 0) ms)) c1"
      unfolding receiving_def using sync(3,4)
      by (intro exI [of _ "[]"]) (cases ms; simp)
    ultimately obtain game' c2 where "client_rounds alc ns (s_sent s) game c1 = Inr ([], game', c2)"
      "players_log game' (\<lambda>p. L p @ from_player p (map (Pair 0) ms)) K"
      "\<forall>p. joined game' p = joined game p"
      using client_rounds_receive [where alc = alc and ns = ns, OF _ assms(3,4,9) cs(3)] cs(4)
      unfolding frames_pframes by force
    moreover have "(\<lambda>p. L p @ from_player p (map (Pair 0) ms)) =
        (\<lambda>p. if p = 0 then L 0 @ ms else L p)"
      by (auto simp: from_player_Pair)
    ultimately show ?thesis using s(1) by auto
  qed
  then show ?thesis using sync(1,2) by blast
qed

theorem loopback_delivers_input_witness:
  "\<exists>input input' c1. connection_sync output_ready (Read_ok []) (\<lambda>bs. Write_ok (length bs))
      all_succeed 2 input example_game (conn_with []) = Inr (CONN_OK, input', example_game, c1) \<and>
    (\<exists>s game' c2. server_routine (\<lambda>bs. bs) (arrivals [[97], [0, 98], [99, 0]])
        (server_start endpoint_init) = Inr s \<and>
      client_rounds all_succeed (replicate 100 3) (s_sent s) example_game c1 = Inr ([], game', c2) \<and>
      rw_log (game' ! 0) [[97], [98, 99]] 0)"
proof -
  obtain input where input: "rw_log input [[97], [98, 99]] 0" using example_log by blast
  have acc: "acceptable example_game (\<lambda>_. []) (map (Pair 0) [[97], [98, 99]])"
    by (auto simp: acceptable_def example_game_joined max_player_def receive_size_def log_limit_def)
  have "concat [[97], [0, 98], [99, 0]] = encode 0 [[97], [98, 99]]"
    "deliverable [] [[97], [0, 98], [99, 0]]"
    "length (frames [[97], [98, 99]]) < length (replicate 100 (3 :: nat))"
    by (simp_all add: server_recv_max_def)
  note stream = this
  have two: "unat (2 :: u32) = length [[97], [98, 99 :: byte]]" by simp
  have conn: "holds_bytes (conn_with []) []" by (simp add: conn_with_holds)
  have ep: "\<not> disconnected endpoint_init" by (simp add: endpoint_init_def)
  have alc: "all_succeed n \<noteq> None" for n by (simp add: all_succeed_def)
  obtain input' c1 where 1: "connection_sync output_ready (Read_ok []) (\<lambda>bs. Write_ok (length bs))
      all_succeed 2 input example_game (conn_with []) = Inr (CONN_OK, input', example_game, c1)"
    "\<forall>cs ns. concat cs = encode 0 [[97], [98, 99]] \<longrightarrow> deliverable [] cs \<longrightarrow>
       (\<forall>n \<in> set ns. 0 < n) \<longrightarrow> length (frames [[97], [98, 99]]) < length ns \<longrightarrow>
       (\<exists>s game' c2. server_routine (\<lambda>bs. bs) (arrivals cs) (server_start endpoint_init) = Inr s \<and>
          client_rounds all_succeed ns (s_sent s) example_game c1 = Inr ([], game', c2) \<and>
          players_log game' (\<lambda>p. if p = 0 then [] @ [[97], [98, 99]] else []) (\<lambda>_. 0) \<and>
          (\<forall>p. joined game' p = joined example_game p))"
    using loopback_delivers_input [where rd = "Read_ok []" and alc = all_succeed and acc = "\<lambda>bs. bs" and kwrite = "\<lambda>bs. Write_ok (length bs)",
        OF input two example_game_log acc conn conn_with_simps(2,1) ep alc refl refl]
    by blast
  obtain s game' c2 where 2: "server_routine (\<lambda>bs. bs) (arrivals [[97], [0, 98], [99, 0]])
        (server_start endpoint_init) = Inr s"
    "client_rounds all_succeed (replicate 100 3) (s_sent s) example_game c1 = Inr ([], game', c2)"
    "players_log game' (\<lambda>p. if p = 0 then [] @ [[97], [98, 99]] else []) (\<lambda>_. 0)"
    "\<forall>p. joined game' p = joined example_game p"
  proof -
    have "n \<in> set (replicate 100 3) \<Longrightarrow> (0 :: nat) < n" for n by simp
    from 1(2) [rule_format, OF stream(1,2) this stream(3)]
    show ?thesis using that by blast
  qed
  have "rw_rec (game' ! 0) \<noteq> None"
    using spec [OF 2(4), of 0] example_game_joined [of 0] by (simp add: joined_def max_player_def)
  then have "rw_log (game' ! 0) [[97], [98, 99]] 0"
    using 2(3) unfolding players_log_def by (auto dest!: spec [of _ 0] simp: max_player_def)
  then show ?thesis
    using 1(1) 2(1,2) by blast
qed

end
